theory Spec2Isabelle
  imports Main "HOL-Library.Sublist"
begin

section \<open>Go module resolution of cachi2: a shallow embedding\<close>

text \<open>
  The definitions follow \<^verbatim>\<open>cachi2/core/package_managers/gomod.py\<close>. Python strings are
  \<^typ>\<open>string\<close>; a character is read as a code point below 256. An exception is a value
  of the type \<open>error\<close>, and a function that can raise returns \<open>error + 'a\<close>.
\<close>

subsection \<open>Errors\<close>

datatype error =
    PackageRejected string string
  | UnexpectedFormat string string
  | PathOutsideRoot "string option"
  | GoModError string
  | FetchError string
  | GitCommandError
  | RuntimeError string
  | KeyError string
  | ValueError
  | OverflowError
  | IndexError
  | IsADirectoryError

text \<open>
  \<open>PackageRejected reason solution\<close> and \<open>UnexpectedFormat reason solution\<close> carry the
  texts the source passes. \<open>PathOutsideRoot None\<close> is the error as the rooted-path guard
  raised it; \<open>PathOutsideRoot (Some s)\<close> is the same error after a handler of
  \<^verbatim>\<open>gomod.py\<close> has set its \<^verbatim>\<open>solution\<close> to \<open>s\<close>.
\<close>

subsection \<open>Rooted paths and the file system\<close>

text \<open>
  Modelled from the spec: \<^verbatim>\<open>cachi2.core.rooted_path.RootedPath\<close> is not among the
  sources. Section 4.1 of the specification: the guard rejects, with a distinct fatal
  error, any resolved path that is not a descendant of the root. A rooted path is what
  the code observes of it: its position below the root (\<open>None\<close> when it is the root),
  the node found there, and the outcome of \<^verbatim>\<open>join_within_root\<close> for a relative path
  (\<open>None\<close> when the guard raises \<^verbatim>\<open>PathOutsideRoot\<close>). A file is its decoded text.
\<close>

datatype fs_node = Absent | File string | Dir

datatype RootedPath =
  RootedPath (subpath_from_root: "string option") (node: fs_node)
    (join_within_root: "string \<Rightarrow> RootedPath option")

definition path_exists :: "fs_node \<Rightarrow> bool" where
  "path_exists n = (n \<noteq> Absent)"

definition is_dir :: "fs_node \<Rightarrow> bool" where
  "is_dir n = (n = Dir)"

subsection \<open>Strings\<close>

definition startswith :: "string \<Rightarrow> string \<Rightarrow> bool" where
  "startswith s p = prefix p s"

definition removeprefix :: "string \<Rightarrow> string \<Rightarrow> string" where
  "removeprefix s p = (if startswith s p then drop (length p) s else s)"

text \<open>The truth value Python gives an optional string: false for \<^verbatim>\<open>None\<close> and for \<^verbatim>\<open>""\<close>.\<close>

definition truthy :: "string option \<Rightarrow> bool" where
  "truthy s = (case s of None \<Rightarrow> False | Some v \<Rightarrow> v \<noteq> [])"

text \<open>The code points below 256 for which \<^verbatim>\<open>str.isspace\<close> holds.\<close>

definition is_space :: "char \<Rightarrow> bool" where
  "is_space c = (of_char c \<in> {9, 10, 11, 12, 13, 28, 29, 30, 31, 32, 133, 160 :: nat})"

text \<open>\<^verbatim>\<open>str.split()\<close> with no separator: the maximal runs of non-space characters.\<close>

fun split_from :: "string \<Rightarrow> string \<Rightarrow> string list" where
  "split_from cur [] = (if cur = [] then [] else [cur])"
| "split_from cur (c # cs) =
     (if is_space c then (if cur = [] then split_from [] cs else cur # split_from [] cs)
      else split_from (cur @ [c]) cs)"

definition split :: "string \<Rightarrow> string list" where
  "split s = split_from [] s"

text \<open>
  \<^verbatim>\<open>str.splitlines()\<close>: a line ends at a line feed, a carriage return (with the line
  feed that follows it), a vertical tab, a form feed, a file, group or record separator,
  or a next-line character; the last line needs no terminator.
\<close>

definition is_linebreak :: "char \<Rightarrow> bool" where
  "is_linebreak c = (of_char c \<in> {10, 11, 12, 13, 28, 29, 30, 133 :: nat})"

fun splitlines_from :: "string \<Rightarrow> string \<Rightarrow> string list" where
  "splitlines_from cur [] = (if cur = [] then [] else [cur])"
| "splitlines_from cur [c] = (if is_linebreak c then [cur] else [cur @ [c]])"
| "splitlines_from cur (c # d # cs) =
     (if c = CHR 0x0D \<and> d = CHR 0x0A then cur # splitlines_from [] cs
      else if is_linebreak c then cur # splitlines_from [] (d # cs)
      else splitlines_from (cur @ [c]) (d # cs))"

definition splitlines :: "string \<Rightarrow> string list" where
  "splitlines s = splitlines_from [] s"

text \<open>
  \<^verbatim>\<open>repr\<close> of a string: single quotes unless the string holds a single quote and no
  double quote; the quote and the backslash are escaped, tab, line feed and carriage
  return are written \<^verbatim>\<open>\t\<close>, \<^verbatim>\<open>\n\<close>, \<^verbatim>\<open>\r\<close>, and a character that is not printable
  is written \<^verbatim>\<open>\xNN\<close>.
\<close>

definition hex_digit :: "nat \<Rightarrow> char" where
  "hex_digit n = ''0123456789abcdef'' ! (n mod 16)"

definition repr_char :: "char \<Rightarrow> char \<Rightarrow> string" where
  "repr_char quote c =
     (let n = (of_char c :: nat) in
      if c = quote \<or> c = CHR 0x5C then [CHR 0x5C, c]
      else if n = 9 then [CHR 0x5C, CHR ''t'']
      else if n = 10 then [CHR 0x5C, CHR ''n'']
      else if n = 13 then [CHR 0x5C, CHR ''r'']
      else if n < 32 \<or> (127 \<le> n \<and> n \<le> 160) \<or> n = 173
        then [CHR 0x5C, CHR ''x'', hex_digit (n div 16), hex_digit n]
      else [c])"

definition repr :: "string \<Rightarrow> string" where
  "repr s =
     (let quote = (if CHR 0x27 \<in> set s \<and> CHR 0x22 \<notin> set s then CHR 0x22 else CHR 0x27)
      in [quote] @ concat (map (repr_char quote) s) @ [quote])"

subsection \<open>Parsed modules\<close>

datatype ParsedModule =
  ParsedModule (path: string) (version: "string option") (main: bool)
    (replace: "ParsedModule option")

subsection \<open>The vendor parser\<close>

definition unexpected_format_solution :: string where
  \<open>unexpected_format_solution =
     ''Does `go mod vendor` make any changes to modules.txt?\<newline>'' @
     ''If not, please let the maintainers know that Cachi2 fails to parse valid modules.txt''\<close>

definition fail_for_unexpected_format :: "string \<Rightarrow> error" where
  "fail_for_unexpected_format msg =
     UnexpectedFormat (''vendor/modules.txt: '' @ msg) unexpected_format_solution"

definition parse_module_line :: "string \<Rightarrow> error + ParsedModule" where
  "parse_module_line line =
     (let parts = split (removeprefix line ''# '') in
      if length parts = 2
        then Inr (ParsedModule (parts ! 0) (Some (parts ! 1)) False None)
      else if length parts = 3 \<and> parts ! 1 = ''=>''
        then Inr (ParsedModule (parts ! 0) None False
                    (Some (ParsedModule (parts ! 2) None False None)))
      else if length parts = 4 \<and> parts ! 1 = ''=>''
        then Inr (ParsedModule (parts ! 0) None False
                    (Some (ParsedModule (parts ! 2) (Some (parts ! 3)) False None)))
      else if length parts = 4 \<and> parts ! 2 = ''=>''
        then Inr (ParsedModule (parts ! 0) (Some (parts ! 1)) False
                    (Some (ParsedModule (parts ! 3) None False None)))
      else if length parts = 5 \<and> parts ! 2 = ''=>''
        then Inr (ParsedModule (parts ! 0) (Some (parts ! 1)) False
                    (Some (ParsedModule (parts ! 3) (Some (parts ! 4)) False None)))
      else Inl (fail_for_unexpected_format (''unexpected module line format: '' @ repr line)))"

text \<open>
  The loop over the lines, with the two lists it appends to. The assignment
  \<^verbatim>\<open>module_has_packages[-1] = True\<close> raises \<^verbatim>\<open>IndexError\<close> on an empty list.
\<close>

fun parse_vendor_loop ::
  "ParsedModule list \<Rightarrow> bool list \<Rightarrow> string list \<Rightarrow> error + (ParsedModule list \<times> bool list)" where
  "parse_vendor_loop modules module_has_packages [] = Inr (modules, module_has_packages)"
| "parse_vendor_loop modules module_has_packages (line # rest) =
     (if startswith line ''# '' then
        (case parse_module_line line of
           Inl e \<Rightarrow> Inl e
         | Inr m \<Rightarrow> parse_vendor_loop (modules @ [m]) (module_has_packages @ [False]) rest)
      else if \<not> startswith line ''#'' then
        (if modules = []
           then Inl (fail_for_unexpected_format (''package has no parent module: '' @ line))
         else if module_has_packages = [] then Inl IndexError
         else parse_vendor_loop modules
                (module_has_packages[length module_has_packages - 1 := True]) rest)
      else if \<not> startswith line ''##''
        then Inl (fail_for_unexpected_format (''unexpected format: '' @ repr line))
      else parse_vendor_loop modules module_has_packages rest)"

definition parse_vendor_lines :: "string list \<Rightarrow> error + ParsedModule list" where
  "parse_vendor_lines lines =
     (case parse_vendor_loop [] [] lines of
        Inl e \<Rightarrow> Inl e
      | Inr (modules, module_has_packages) \<Rightarrow>
          Inr (map fst (filter snd (zip modules module_has_packages))))"

definition parse_vendor :: "RootedPath \<Rightarrow> error + ParsedModule list" where
  "parse_vendor module_dir =
     (case join_within_root module_dir ''vendor/modules.txt'' of
        None \<Rightarrow> Inl (PathOutsideRoot None)
      | Some modules_txt \<Rightarrow>
          (case node modules_txt of
             Absent \<Rightarrow> Inr []
           | Dir \<Rightarrow> Inl IsADirectoryError
           | File text \<Rightarrow> parse_vendor_lines (splitlines text)))"

definition vendor_changed_reason :: string where
  "vendor_changed_reason =
     ''The content of the vendor directory is not consistent with go.mod. '' @
     ''Please check the logs for more details.''"

definition vendor_changed_solution :: string where
  \<open>vendor_changed_solution =
     ''Please try running `go mod vendor` and committing the changes.\<newline>'' @
     ''Note that you may need to `git add --force` ignored files in the vendor/ dir.\<newline>'' @
     ''Also consider whether you really want the -check variant of the flag.''\<close>

text \<open>
  \<^verbatim>\<open>_vendor_deps\<close>. The outcome of running \<^verbatim>\<open>go mod vendor\<close> and the outcome of
  \<^verbatim>\<open>_vendor_changed\<close> (a question to git, asked only when no change is allowed) are
  parameters; \<open>app_dir\<close> is the directory as the command left it.
\<close>

definition vendor_deps ::
  "RootedPath \<Rightarrow> bool \<Rightarrow> error + string \<Rightarrow> error + bool \<Rightarrow> error + ParsedModule list" where
  "vendor_deps app_dir can_make_changes go_mod_vendor vendor_changed =
     (case go_mod_vendor of
        Inl e \<Rightarrow> Inl e
      | Inr _ \<Rightarrow>
          if can_make_changes then parse_vendor app_dir
          else (case vendor_changed of
                  Inl e \<Rightarrow> Inl e
                | Inr changed \<Rightarrow>
                    if changed
                      then Inl (PackageRejected vendor_changed_reason vendor_changed_solution)
                    else parse_vendor app_dir))"

subsection \<open>The vendoring arbiter\<close>

definition vendor_flag_reason :: string where
  \<open>vendor_flag_reason =
     ''The "gomod-vendor" or "gomod-vendor-check" flag must be set when your repository '' @
     ''has vendored dependencies.''\<close>

definition vendor_flag_solution :: string where
  \<open>vendor_flag_solution =
     ''Consider removing the vendor/ directory and letting Cachi2 download dependencies '' @
     ''instead.\<newline>'' @
     ''If you do want to keep using vendoring, please pass one of the required flags.''\<close>

definition should_vendor_deps :: "string list \<Rightarrow> RootedPath \<Rightarrow> bool \<Rightarrow> error + (bool \<times> bool)" where
  "should_vendor_deps flags app_dir strict =
     (case join_within_root app_dir ''vendor'' of
        None \<Rightarrow> Inl (PathOutsideRoot None)
      | Some vendor \<Rightarrow>
          if ''gomod-vendor-check'' \<in> set flags then Inr (True, \<not> path_exists (node vendor))
          else if ''gomod-vendor'' \<in> set flags then Inr (True, True)
          else if strict \<and> is_dir (node vendor)
            then Inl (PackageRejected vendor_flag_reason vendor_flag_solution)
          else Inr (False, False))"

subsection \<open>Validation of local replacements\<close>

definition local_replacement_solution :: "string \<Rightarrow> string \<Rightarrow> string" where
  "local_replacement_solution nm p =
     ''The module '' @ [CHR 0x27] @ nm @ [CHR 0x27] @
     '' is being replaced by the local path '' @ [CHR 0x27] @ p @ [CHR 0x27] @ '', '' @
     ''which falls outside of the repository root. Refusing to proceed.''"

definition replaced_paths :: "ParsedModule list \<Rightarrow> (string \<times> string) list" where
  "replaced_paths modules =
     List.map_filter
       (\<lambda>m. case replace m of
              None \<Rightarrow> None
            | Some r \<Rightarrow> if startswith (path r) ''.'' then Some (path m, path r) else None)
       modules"

fun validate_replaced_paths :: "RootedPath \<Rightarrow> (string \<times> string) list \<Rightarrow> error + unit" where
  "validate_replaced_paths app_path [] = Inr ()"
| "validate_replaced_paths app_path ((nm, p) # rest) =
     (case join_within_root app_path p of
        None \<Rightarrow> Inl (PathOutsideRoot (Some (local_replacement_solution nm p)))
      | Some _ \<Rightarrow> validate_replaced_paths app_path rest)"

definition validate_local_replacements :: "ParsedModule list \<Rightarrow> RootedPath \<Rightarrow> error + unit" where
  "validate_local_replacements modules app_path =
     validate_replaced_paths app_path (replaced_paths modules)"

subsection \<open>Deduplication of the resolved modules\<close>

definition get_unique_key :: "ParsedModule \<Rightarrow> string \<times> string option" where
  "get_unique_key m =
     (case replace m of
        None \<Rightarrow> (path m, version m)
      | Some r \<Rightarrow>
          if truthy (version r) then (path r, version r)
          else (path m, Some (path r)))"

text \<open>
  A dictionary keeps its keys in the order of their first insertion, so it is a list of
  pairs with distinct keys; \<^verbatim>\<open>setdefault\<close> adds a pair at the end only when the key is new.
\<close>

definition setdefault :: "('k \<times> 'v) list \<Rightarrow> 'k \<Rightarrow> 'v \<Rightarrow> ('k \<times> 'v) list" where
  "setdefault d k v = (case map_of d k of None \<Rightarrow> d @ [(k, v)] | Some _ \<Rightarrow> d)"

fun deduplicate_loop ::
  "((string \<times> string option) \<times> ParsedModule) list \<Rightarrow> ParsedModule list
     \<Rightarrow> ((string \<times> string option) \<times> ParsedModule) list" where
  "deduplicate_loop modules_by_name_and_version [] = modules_by_name_and_version"
| "deduplicate_loop modules_by_name_and_version (m # rest) =
     deduplicate_loop (setdefault modules_by_name_and_version (get_unique_key m) m) rest"

definition deduplicate_resolved_modules ::
  "ParsedModule list \<Rightarrow> ParsedModule list \<Rightarrow> ParsedModule list" where
  "deduplicate_resolved_modules package_modules downloaded_modules =
     map snd (deduplicate_loop [] (package_modules @ downloaded_modules))"

subsection \<open>More of Python's strings\<close>

text \<open>\<^verbatim>\<open>str(n)\<close> for a natural number: its decimal digits.\<close>

definition digit_char :: "nat \<Rightarrow> char" where
  "digit_char n = ''0123456789'' ! (n mod 10)"

fun str_nat :: "nat \<Rightarrow> string" where
  "str_nat n = (if n < 10 then [digit_char n] else str_nat (n div 10) @ [digit_char n])"

declare str_nat.simps [simp del]

text \<open>
  \<^verbatim>\<open>s.replace(old, new)\<close>: the occurrences of \<open>old\<close> are found from left to right and do
  not overlap; an empty \<open>old\<close> matches before every character and at the end.
\<close>

fun str_replace :: "string \<Rightarrow> string \<Rightarrow> string \<Rightarrow> string" where
  "str_replace [] old new = (if old = [] then new else [])"
| "str_replace (c # cs) old new =
     (if old = [] then new @ concat (map (\<lambda>x. x # new) (c # cs))
      else if prefix old (c # cs) then new @ str_replace (drop (length old) (c # cs)) old new
      else c # str_replace cs old new)"

text \<open>\<^verbatim>\<open>s.split(sep)\<close> and \<^verbatim>\<open>sep.join(xs)\<close> for a separator of one character.\<close>

fun split_sep_from :: "char \<Rightarrow> string \<Rightarrow> string \<Rightarrow> string list" where
  "split_sep_from sep cur [] = [cur]"
| "split_sep_from sep cur (c # cs) =
     (if c = sep then cur # split_sep_from sep [] cs else split_sep_from sep (cur @ [c]) cs)"

definition split_sep :: "char \<Rightarrow> string \<Rightarrow> string list" where
  "split_sep sep s = split_sep_from sep [] s"

definition join_sep :: "char \<Rightarrow> string list \<Rightarrow> string" where
  "join_sep sep xs = (case xs of [] \<Rightarrow> [] | x # rest \<Rightarrow> x @ concat (map (\<lambda>y. sep # y) rest))"

subsection \<open>Paths\<close>

text \<open>
  \<^verbatim>\<open>os.path.normpath\<close> on POSIX: empty and \<open>.\<close> components go, a \<open>..\<close> removes the
  component before it unless that is a \<open>..\<close> too or nothing is left of a relative path,
  and exactly two leading slashes are kept.
\<close>

fun normpath_comps :: "nat \<Rightarrow> string list \<Rightarrow> string list \<Rightarrow> string list" where
  "normpath_comps initial_slashes new_comps [] = new_comps"
| "normpath_comps initial_slashes new_comps (component # comps) =
     (if component = [] \<or> component = ''.'' then normpath_comps initial_slashes new_comps comps
      else if component \<noteq> ''..'' \<or> (initial_slashes = 0 \<and> new_comps = [])
               \<or> (new_comps \<noteq> [] \<and> last new_comps = ''..'')
        then normpath_comps initial_slashes (new_comps @ [component]) comps
      else if new_comps \<noteq> [] then normpath_comps initial_slashes (butlast new_comps) comps
      else normpath_comps initial_slashes new_comps comps)"

definition normpath :: "string \<Rightarrow> string" where
  "normpath p =
     (if p = [] then ''.''
      else
        let initial_slashes =
              (if startswith p ''/''
                 then (if startswith p ''//'' \<and> \<not> startswith p ''///'' then 2 else 1)
               else (0::nat));
            comps = normpath_comps initial_slashes [] (split_sep CHR ''/'' p);
            joined = replicate initial_slashes CHR ''/'' @ join_sep CHR ''/'' comps
        in if joined = [] then ''.'' else joined)"

text \<open>
  A \<^verbatim>\<open>PurePosixPath\<close> is the list of its parts: the root (\<open>/\<close>, or \<open>//\<close> for exactly two
  leading slashes) when it is absolute, then the components that are neither empty nor
  \<open>.\<close>. \<^verbatim>\<open>relative_to\<close> raises \<^verbatim>\<open>ValueError\<close> unless the parts of the other path begin
  the parts of the path; \<^verbatim>\<open>str\<close> of a path with no parts is \<open>.\<close>.
\<close>

definition path_root :: "string \<Rightarrow> string" where
  "path_root s =
     (if startswith s ''//'' \<and> \<not> startswith s ''///'' then ''//''
      else if startswith s ''/'' then ''/'' else [])"

definition path_parts :: "string \<Rightarrow> string list" where
  "path_parts s =
     (let comps = filter (\<lambda>x. x \<noteq> [] \<and> x \<noteq> ''.'') (split_sep CHR ''/'' s)
      in if path_root s = [] then comps else path_root s # comps)"

definition is_absolute :: "string list \<Rightarrow> bool" where
  "is_absolute parts = (case parts of [] \<Rightarrow> False | p # _ \<Rightarrow> startswith p ''/'')"

definition path_str :: "string list \<Rightarrow> string" where
  "path_str parts =
     (case parts of
        [] \<Rightarrow> ''.''
      | p # rest \<Rightarrow> if startswith p ''/'' then p @ join_sep CHR ''/'' rest
                    else join_sep CHR ''/'' parts)"

definition relative_to :: "string list \<Rightarrow> string list \<Rightarrow> error + string list" where
  "relative_to parts other =
     (if other = [] then (if is_absolute parts then Inl ValueError else Inr parts)
      else if take (length other) parts \<noteq> other then Inl ValueError
      else Inr (drop (length other) parts))"

definition is_relative_to :: "string list \<Rightarrow> string list \<Rightarrow> bool" where
  "is_relative_to parts other = (case relative_to parts other of Inl _ \<Rightarrow> False | Inr _ \<Rightarrow> True)"

subsection \<open>Semantic versions\<close>

text \<open>
  The \<^verbatim>\<open>semver\<close> package is not part of the repository. A parsed version is a record
  of its five fields. Parsing a string (\<open>None\<close> when \<^verbatim>\<open>Version.parse\<close> raises
  \<^verbatim>\<open>ValueError\<close>) and the order of two versions are parameters, gathered in a record;
  \<^verbatim>\<open>str\<close> of a version and \<^verbatim>\<open>bump_patch\<close> are written out.
\<close>

record Version =
  major :: nat
  minor :: nat
  patch :: nat
  prerelease :: "string option"
  build :: "string option"

record semver =
  version_parse :: "string \<Rightarrow> Version option"
  version_gt :: "Version \<Rightarrow> Version \<Rightarrow> bool"

definition version_str :: "Version \<Rightarrow> string" where
  "version_str v =
     str_nat (major v) @ ''.'' @ str_nat (minor v) @ ''.'' @ str_nat (patch v)
     @ (case prerelease v of None \<Rightarrow> [] | Some p \<Rightarrow> if p = [] then [] else ''-'' @ p)
     @ (case build v of None \<Rightarrow> [] | Some b \<Rightarrow> if b = [] then [] else ''+'' @ b)"

definition bump_patch :: "Version \<Rightarrow> Version" where
  "bump_patch v =
     \<lparr>major = major v, minor = minor v, patch = patch v + 1, prerelease = None, build = None\<rparr>"

subsection \<open>Commits and their time\<close>

record Commit =
  hexsha :: string
  committed_date :: nat

text \<open>
  \<^verbatim>\<open>datetime.utcfromtimestamp\<close> for the seconds since the epoch that a commit holds:
  the day count gives the civil date in the proleptic Gregorian calendar and the rest the
  time of day; it raises when the year would pass 9999. The days since 0001-01-01 are
  cut into cycles of 400, 100 and 4 years and into years, the last day of a leap cycle
  standing for the 31st of December; the month is found by running through the lengths
  of the months. \<^verbatim>\<open>strftime\<close> with \<^verbatim>\<open>%Y%m%d%H%M%S\<close> pads the year to four digits and
  the other fields to two.
\<close>

record datetime =
  year :: nat
  month :: nat
  day :: nat
  hour :: nat
  minute :: nat
  second :: nat

definition is_leap :: "nat \<Rightarrow> bool" where
  "is_leap y = (y mod 4 = 0 \<and> (y mod 100 \<noteq> 0 \<or> y mod 400 = 0))"


definition days_in_month :: "nat \<Rightarrow> nat \<Rightarrow> nat" where
  "days_in_month y m =
     (if m = 2 then (if is_leap y then 29 else 28)
      else if m = 4 \<or> m = 6 \<or> m = 9 \<or> m = 11 then 30 else 31)"

definition year_and_day :: "nat \<Rightarrow> nat \<times> nat" where
  "year_and_day n =
     (let n400 = n div 146097;
          r400 = n mod 146097;
          n100 = r400 div 36524;
          r100 = r400 mod 36524;
          n4 = r100 div 1461;
          r4 = r100 mod 1461;
          n1 = r4 div 365;
          y = 400 * n400 + 100 * n100 + 4 * n4 + n1
      in if n1 = 4 \<or> n100 = 4 then (y, 365) else (y + 1, r4 mod 365))"

function month_and_day :: "nat \<Rightarrow> nat \<Rightarrow> nat \<Rightarrow> nat \<times> nat" where
  "month_and_day y m n =
     (if m < 12 \<and> days_in_month y m \<le> n
        then month_and_day y (m + 1) (n - days_in_month y m)
      else (m, n + 1))"
  by pat_completeness auto
termination by (relation "measure (\<lambda>(y, m, n). 12 - m)") auto

declare month_and_day.simps [simp del]

definition utcfromtimestamp :: "nat \<Rightarrow> error + datetime" where
  "utcfromtimestamp t =
     (if 253402300799 < t then Inl ValueError
      else
        let (y, n) = year_and_day (t div 86400 + 719162);
            (m, d) = month_and_day y 1 n;
            secs = t mod 86400
        in Inr \<lparr>year = y, month = m, day = d, hour = secs div 3600,
                 minute = secs mod 3600 div 60, second = secs mod 60\<rparr>)"

definition zero_pad :: "nat \<Rightarrow> nat \<Rightarrow> string" where
  "zero_pad w n = replicate (w - length (str_nat n)) CHR ''0'' @ str_nat n"

definition strftime :: "datetime \<Rightarrow> string" where
  "strftime dt =
     zero_pad 4 (year dt) @ zero_pad 2 (month dt) @ zero_pad 2 (day dt)
     @ zero_pad 2 (hour dt) @ zero_pad 2 (minute dt) @ zero_pad 2 (second dt)"

subsection \<open>The version reifier\<close>

text \<open>
  What \<^verbatim>\<open>_get_golang_version\<close> asks of git, for the commit that \<^verbatim>\<open>commit_sha\<close> or
  \<^verbatim>\<open>HEAD\<close> names: whether fetching the tags raises (and the name of the exception's
  type), the commit, and the lines that the two tag listings print (or the
  \<^verbatim>\<open>GitCommandError\<close> they raise). A tag is its name.
\<close>

record Repo =
  fetch_error :: "string option"
  target_commit :: Commit
  tags_points_at :: "error + string list"
  tags_merged :: "error + string list"

text \<open>
  \<^verbatim>\<open>re.match(r"(?:.+/v)(?P<major_version>\d+)$", module_name)\<close> and \<^verbatim>\<open>int\<close> of its
  group: the name, less one final line feed, ends with a non-empty run of digits; before
  the run stands \<open>/v\<close>, and before that at least one character and no line feed.
\<close>

definition is_digit :: "char \<Rightarrow> bool" where
  "is_digit c = (48 \<le> (of_char c :: nat) \<and> (of_char c :: nat) \<le> 57)"

definition int_of_digits :: "string \<Rightarrow> nat" where
  "int_of_digits ds = foldl (\<lambda>acc c. 10 * acc + (of_char c - 48)) 0 ds"

definition match_major_version :: "string \<Rightarrow> nat option" where
  "match_major_version module_name =
     (let s = (if module_name \<noteq> [] \<and> last module_name = CHR 0x0A
                 then butlast module_name else module_name);
          digits = rev (takeWhile is_digit (rev s));
          front = take (length s - length digits) s
      in if digits \<noteq> [] \<and> suffix ''/v'' front \<and> 2 < length front
            \<and> CHR 0x0A \<notin> set front
           then Some (int_of_digits digits) else None)"

definition major_versions_to_try :: "nat option \<Rightarrow> nat list" where
  "major_versions_to_try module_major_version =
     (case module_major_version of
        None \<Rightarrow> [1, 0]
      | Some n \<Rightarrow> if n \<noteq> 0 then [n] else [1, 0])"

definition get_semantic_version_from_tag ::
  "semver \<Rightarrow> string \<Rightarrow> string option \<Rightarrow> error + Version" where
  "get_semantic_version_from_tag lib tag_name subpath =
     (let semantic_version =
            (case subpath of
               None \<Rightarrow> drop 1 tag_name
             | Some sp \<Rightarrow> if sp = [] then drop 1 tag_name
                          else str_replace tag_name (sp @ ''/v'') [])
      in case version_parse lib semantic_version of
           None \<Rightarrow> Inl ValueError
         | Some v \<Rightarrow> Inr v)"

fun highest_loop ::
  "semver \<Rightarrow> nat \<Rightarrow> string option \<Rightarrow> (string \<times> Version) option \<Rightarrow> string list
     \<Rightarrow> (string \<times> Version) option" where
  "highest_loop lib major_version subpath highest [] = highest"
| "highest_loop lib major_version subpath highest (tag_name # rest) =
     (case get_semantic_version_from_tag lib tag_name subpath of
        Inl _ \<Rightarrow> highest_loop lib major_version subpath highest rest
      | Inr semantic_version \<Rightarrow>
          if major semantic_version \<noteq> major_version
            then highest_loop lib major_version subpath highest rest
          else if (case highest of
                     None \<Rightarrow> True
                   | Some (_, h) \<Rightarrow> version_gt lib semantic_version h)
            then highest_loop lib major_version subpath (Some (tag_name, semantic_version)) rest
          else highest_loop lib major_version subpath highest rest)"

definition tag_prefix :: "string option \<Rightarrow> string" where
  "tag_prefix subpath =
     (case subpath of None \<Rightarrow> ''v'' | Some sp \<Rightarrow> if sp = [] then ''v'' else sp @ ''/v'')"

definition get_highest_semver_tag ::
  "semver \<Rightarrow> Repo \<Rightarrow> nat \<Rightarrow> bool \<Rightarrow> string option \<Rightarrow> error + string option" where
  "get_highest_semver_tag lib repo major_version all_reachable subpath =
     (case (if all_reachable then tags_merged repo else tags_points_at repo) of
        Inl e \<Rightarrow> Inl e
      | Inr tag_names \<Rightarrow>
          let filtered_tags = filter (\<lambda>t. startswith t (tag_prefix subpath)) tag_names
          in Inr (map_option fst (highest_loop lib major_version subpath None filtered_tags)))"

definition get_golang_pseudo_version ::
  "semver \<Rightarrow> Commit \<Rightarrow> string option \<Rightarrow> nat option \<Rightarrow> string option \<Rightarrow> error + string" where
  "get_golang_pseudo_version lib commit tag module_major_version subpath =
     (case utcfromtimestamp (committed_date commit) of
        Inl e \<Rightarrow> Inl e
      | Inr committed_dt \<Rightarrow>
          let commit_timestamp = strftime committed_dt;
              commit_hash = take 12 (hexsha commit)
          in case tag of
               None \<Rightarrow>
                 Inr (''v''
                      @ (case module_major_version of
                           None \<Rightarrow> ''0''
                         | Some n \<Rightarrow> if n = 0 then ''0'' else str_nat n)
                      @ ''.0.0-'' @ commit_timestamp @ ''-'' @ commit_hash)
             | Some tag_name \<Rightarrow>
                 (case get_semantic_version_from_tag lib tag_name subpath of
                    Inl e \<Rightarrow> Inl e
                  | Inr tag_semantic_version \<Rightarrow>
                      if truthy (prerelease tag_semantic_version)
                        then Inr (''v'' @ version_str tag_semantic_version @ ''.'' @ ''0.''
                                  @ commit_timestamp @ ''-'' @ commit_hash)
                      else Inr (''v'' @ version_str (bump_patch tag_semantic_version) @ ''-''
                                @ ''0.'' @ commit_timestamp @ ''-'' @ commit_hash)))"

text \<open>The two loops of \<^verbatim>\<open>_get_golang_version\<close> over the major versions to try.\<close>

fun tag_on_commit_loop ::
  "semver \<Rightarrow> Repo \<Rightarrow> string option \<Rightarrow> nat list \<Rightarrow> error + string option" where
  "tag_on_commit_loop lib repo subpath [] = Inr None"
| "tag_on_commit_loop lib repo subpath (major_version # rest) =
     (case get_highest_semver_tag lib repo major_version False subpath of
        Inl e \<Rightarrow> Inl e
      | Inr None \<Rightarrow> tag_on_commit_loop lib repo subpath rest
      | Inr (Some tag_on_commit) \<Rightarrow>
          Inr (Some (case subpath of
                       None \<Rightarrow> tag_on_commit
                     | Some sp \<Rightarrow> if sp = [] then tag_on_commit
                                  else str_replace tag_on_commit (sp @ ''/'') [])))"

fun pseudo_base_loop ::
  "semver \<Rightarrow> Repo \<Rightarrow> string option \<Rightarrow> nat list \<Rightarrow> error + string option" where
  "pseudo_base_loop lib repo subpath [] = Inr None"
| "pseudo_base_loop lib repo subpath (major_version # rest) =
     (case get_highest_semver_tag lib repo major_version True subpath of
        Inl e \<Rightarrow> Inl e
      | Inr None \<Rightarrow> pseudo_base_loop lib repo subpath rest
      | Inr (Some pseudo_base_tag) \<Rightarrow>
          (case get_golang_pseudo_version lib (target_commit repo) (Some pseudo_base_tag)
                  (Some major_version) subpath of
             Inl e \<Rightarrow> Inl e
           | Inr pseudo_version \<Rightarrow> Inr (Some pseudo_version)))"

definition get_golang_version ::
  "semver \<Rightarrow> Repo \<Rightarrow> string \<Rightarrow> RootedPath \<Rightarrow> bool \<Rightarrow> error + string" where
  "get_golang_version lib repo module_name app_dir update_tags =
     (let module_major_version = match_major_version module_name in
      case (if update_tags then fetch_error repo else None) of
        Some ex \<Rightarrow>
          Inl (FetchError (''Failed to fetch the tags on the Git repository ('' @ ex
                           @ '') for '' @ module_name))
      | None \<Rightarrow>
          let subpath = subpath_from_root app_dir in
          case tag_on_commit_loop lib repo subpath (major_versions_to_try module_major_version) of
            Inl e \<Rightarrow> Inl e
          | Inr (Some v) \<Rightarrow> Inr v
          | Inr None \<Rightarrow>
              (case pseudo_base_loop lib repo subpath
                      (major_versions_to_try module_major_version) of
                 Inl e \<Rightarrow> Inl e
               | Inr (Some v) \<Rightarrow> Inr v
               | Inr None \<Rightarrow>
                   get_golang_pseudo_version lib (target_commit repo) None
                     module_major_version subpath))"

subsection \<open>Modules and packages\<close>

text \<open>
  The canonical records. The source names the last two fields of a module
  \<^verbatim>\<open>version\<close> and \<^verbatim>\<open>main\<close>; here they are \<open>module_version\<close> and \<open>module_main\<close>, apart
  from the fields of a parsed module.
\<close>

record Module =
  name :: string
  original_name :: string
  real_path :: string
  module_version :: string
  module_main :: bool

record ParsedPackage =
  import_path :: string
  standard :: bool
  package_module :: "ParsedModule option"

datatype Package =
    Package (relative_path: string) (module: Module)
  | StandardPackage string

fun map_result :: "('a \<Rightarrow> error + 'b) \<Rightarrow> 'a list \<Rightarrow> error + 'b list" where
  "map_result f [] = Inr []"
| "map_result f (x # xs) =
     (case f x of
        Inl e \<Rightarrow> Inl e
      | Inr y \<Rightarrow> (case map_result f xs of Inl e \<Rightarrow> Inl e | Inr ys \<Rightarrow> Inr (y # ys)))"

definition resolve_path_for_local_replacement :: "Module \<Rightarrow> ParsedModule \<Rightarrow> error + string" where
  "resolve_path_for_local_replacement main_module m =
     (case replace m of
        None \<Rightarrow>
          Inl (RuntimeError (''Can'' @ [CHR 0x27]
                 @ ''t resolve path for a module that was not replaced''))
      | Some r \<Rightarrow>
          Inr (path_str (path_parts (normpath (real_path main_module @ ''/'' @ path r)))))"

definition create_module ::
  "semver \<Rightarrow> Repo \<Rightarrow> Module \<Rightarrow> RootedPath \<Rightarrow> ParsedModule \<Rightarrow> error + Module" where
  "create_module lib repo main_module main_module_dir m =
     (case replace m of
        None \<Rightarrow>
          Inr \<lparr>name = path m, original_name = path m, real_path = path m,
               module_version = (case version m of None \<Rightarrow> [] | Some v \<Rightarrow> v),
               module_main = False\<rparr>
      | Some r \<Rightarrow>
          if truthy (version r) then
            Inr \<lparr>name = path r, original_name = path m, real_path = path r,
                 module_version = (case version r of None \<Rightarrow> [] | Some v \<Rightarrow> v),
                 module_main = False\<rparr>
          else
            (case join_within_root main_module_dir (path r) of
               None \<Rightarrow> Inl (PathOutsideRoot None)
             | Some resolved_replacement_path \<Rightarrow>
                 (case get_golang_version lib repo (path m) resolved_replacement_path False of
                    Inl e \<Rightarrow> Inl e
                  | Inr v \<Rightarrow>
                      (case resolve_path_for_local_replacement main_module m of
                         Inl e \<Rightarrow> Inl e
                       | Inr p \<Rightarrow>
                           Inr \<lparr>name = path m, original_name = path m, real_path = p,
                                module_version = v, module_main = False\<rparr>))))"

definition create_modules_from_parsed_data ::
  "semver \<Rightarrow> Repo \<Rightarrow> Module \<Rightarrow> RootedPath \<Rightarrow> ParsedModule list \<Rightarrow> error + Module list" where
  "create_modules_from_parsed_data lib repo main_module main_module_dir parsed_modules =
     map_result (create_module lib repo main_module main_module_dir) parsed_modules"

text \<open>
  The dictionary comprehension \<^verbatim>\<open>{module.original_name: module for module in modules}\<close>:
  a key keeps the place of its first insertion and the value of its last.
\<close>

definition dict_set :: "('k \<times> 'v) list \<Rightarrow> 'k \<Rightarrow> 'v \<Rightarrow> ('k \<times> 'v) list" where
  "dict_set d k v =
     (if k \<in> fst ` set d then map (\<lambda>(k', v'). if k' = k then (k', v) else (k', v')) d
      else d @ [(k, v)])"

definition indexed_modules :: "Module list \<Rightarrow> (string \<times> Module) list" where
  "indexed_modules modules = foldl (\<lambda>d m. dict_set d (original_name m) m) [] modules"

text \<open>\<^verbatim>\<open>max(keys, key=len, default=None)\<close>: the first of the longest keys.\<close>

definition max_by_len :: "string list \<Rightarrow> string option" where
  "max_by_len keys =
     foldl (\<lambda>best k. case best of
                       None \<Rightarrow> Some k
                     | Some b \<Rightarrow> if length b < length k then Some k else Some b)
       None keys"

definition find_parent_module_by_name ::
  "(string \<times> Module) list \<Rightarrow> ParsedPackage \<Rightarrow> error + Module" where
  "find_parent_module_by_name indexed package =
     (let matched_name =
            max_by_len (filter (\<lambda>k. is_relative_to (path_parts (import_path package)) (path_parts k))
                          (map fst indexed))
      in case matched_name of
           None \<Rightarrow> Inl (RuntimeError ''Package parent module was not found'')
         | Some k \<Rightarrow>
             if k = [] then Inl (RuntimeError ''Package parent module was not found'')
             else (case map_of indexed k of None \<Rightarrow> Inl (KeyError k) | Some m \<Rightarrow> Inr m))"

definition resolve_package_relative_path :: "ParsedPackage \<Rightarrow> Module \<Rightarrow> error + string" where
  "resolve_package_relative_path package m =
     (case relative_to (path_parts (import_path package)) (path_parts (original_name m)) of
        Inl e \<Rightarrow> Inl e
      | Inr rel \<Rightarrow> Inr (removeprefix (path_str rel) ''.''))"

definition create_package :: "(string \<times> Module) list \<Rightarrow> ParsedPackage \<Rightarrow> error + Package" where
  "create_package indexed package =
     (if standard package then Inr (StandardPackage (import_path package))
      else
        case (case package_module package of
                None \<Rightarrow> find_parent_module_by_name indexed package
              | Some pm \<Rightarrow>
                  (case map_of indexed (path pm) of
                     None \<Rightarrow> Inl (KeyError (path pm))
                   | Some m \<Rightarrow> Inr m)) of
          Inl e \<Rightarrow> Inl e
        | Inr m \<Rightarrow>
            (case resolve_package_relative_path package m of
               Inl e \<Rightarrow> Inl e
             | Inr rel \<Rightarrow> Inr (Package rel m)))"

definition create_packages_from_parsed_data ::
  "Module list \<Rightarrow> ParsedPackage list \<Rightarrow> error + Package list" where
  "create_packages_from_parsed_data modules parsed_packages =
     map_result (create_package (indexed_modules modules)) parsed_packages"

text \<open>The properties \<^verbatim>\<open>Package.name\<close> and \<^verbatim>\<open>Package.real_path\<close>.\<close>

definition package_name :: "Package \<Rightarrow> string" where
  "package_name p =
     (case p of
        StandardPackage n \<Rightarrow> n
      | Package rel m \<Rightarrow> if rel \<noteq> [] then name m @ ''/'' @ rel else name m)"

definition package_real_path :: "Package \<Rightarrow> string" where
  "package_real_path p =
     (case p of
        StandardPackage n \<Rightarrow> n
      | Package rel m \<Rightarrow> if rel \<noteq> [] then real_path m @ ''/'' @ rel else real_path m)"

subsection \<open>The vendor manifest as the specification words it\<close>

text \<open>
  These definitions follow section 4.6 of the specification, not the code: the five
  shapes of a module line, the lines that are an error, a package line met before the
  next module line, and the modules that have at least one package line.
\<close>

fun documented_shape :: "string list \<Rightarrow> ParsedModule option" where
  "documented_shape [n, v] = Some (ParsedModule n (Some v) False None)"
| "documented_shape [n, a, p] =
     (if a = ''=>'' then Some (ParsedModule n None False (Some (ParsedModule p None False None)))
      else None)"
| "documented_shape [n, a, b, c] =
     (if a = ''=>''
        then Some (ParsedModule n None False (Some (ParsedModule b (Some c) False None)))
      else if b = ''=>''
        then Some (ParsedModule n (Some a) False (Some (ParsedModule c None False None)))
      else None)"
| "documented_shape [n, v, a, new_n, new_v] =
     (if a = ''=>''
        then Some (ParsedModule n (Some v) False
                     (Some (ParsedModule new_n (Some new_v) False None)))
      else None)"
| "documented_shape parts = None"

definition module_of_line :: "string \<Rightarrow> ParsedModule option" where
  "module_of_line l = documented_shape (split (removeprefix l ''# ''))"

definition malformed_line :: "string \<Rightarrow> bool" where
  "malformed_line l =
     (startswith l ''#'' \<and> \<not> startswith l ''##''
      \<and> \<not> (startswith l ''# '' \<and> module_of_line l \<noteq> None))"

definition package_before_module :: "string list \<Rightarrow> bool" where
  "package_before_module ls =
     (\<exists>p \<in> set (takeWhile (\<lambda>l. \<not> startswith l ''# '') ls). \<not> startswith p ''#'')"

fun modules_with_packages :: "string list \<Rightarrow> ParsedModule list" where
  "modules_with_packages [] = []"
| "modules_with_packages (l # ls) =
     (if startswith l ''# '' \<and> package_before_module ls
        then (case module_of_line l of Some m \<Rightarrow> [m] | None \<Rightarrow> []) @ modules_with_packages ls
      else modules_with_packages ls)"


definition emitted :: "ParsedModule list \<Rightarrow> bool list \<Rightarrow> ParsedModule list" where
  "emitted ms hs = map fst (filter snd (zip ms hs))"


text \<open>
  A module whose replacement path begins with a dot and does not join within the root.
\<close>

definition is_local_escape :: "RootedPath \<Rightarrow> ParsedModule \<Rightarrow> bool" where
  "is_local_escape app_path m =
     (case replace m of
        None \<Rightarrow> False
      | Some r \<Rightarrow> startswith (path r) ''.'' \<and> join_within_root app_path (path r) = None)"

text \<open>
  A module name ends in a major version: a non-empty prefix without line feeds, then
  \<open>/v\<close>, then decimal digits of value \<open>n\<close>, then at most one final line feed.
\<close>

definition has_major_suffix :: "string \<Rightarrow> nat \<Rightarrow> bool" where
  "has_major_suffix module_name n =
     (\<exists>a ds e. module_name = a @ ''/v'' @ ds @ e \<and> a \<noteq> [] \<and> CHR 0x0A \<notin> set a
        \<and> ds \<noteq> [] \<and> (\<forall>c \<in> set ds. is_digit c) \<and> (e = [] \<or> e = [CHR 0x0A])
        \<and> n = int_of_digits ds)"

subsection \<open>The time of a commit as the specification words it\<close>










subsection \<open>Example directories\<close>

definition example_modules_txt :: string where
  "example_modules_txt =
     ''# example.com/a v1.0.0\<newline>## explicit\<newline>example.com/a/pkg\<newline># example.com/b v2.0.0 => ./b\<newline>''"

definition leaf :: "string \<Rightarrow> fs_node \<Rightarrow> RootedPath" where
  "leaf p n = RootedPath (Some p) n (\<lambda>_. None)"

definition example_app_dir :: "fs_node \<Rightarrow> fs_node \<Rightarrow> RootedPath" where
  "example_app_dir vendor modules_txt =
     RootedPath None Dir
       (\<lambda>p. if p = ''vendor'' then Some (leaf p vendor)
            else if p = ''vendor/modules.txt'' then Some (leaf p modules_txt)
            else if p = ''./b'' then Some (leaf ''b'' Dir)
            else None)"

subsection \<open>Example modules\<close>

definition replaced_b :: ParsedModule where
  "replaced_b = ParsedModule ''example.com/b'' (Some ''v1.0.0'') False
                  (Some (ParsedModule ''example.com/c'' (Some ''v1.1.0'') False None))"

definition downloaded_c :: ParsedModule where
  "downloaded_c = ParsedModule ''example.com/c'' (Some ''v1.1.0'') False None"

definition downloaded_d :: ParsedModule where
  "downloaded_d = ParsedModule ''example.com/d'' (Some ''v0.1.0'') False None"

definition local_b :: "string \<Rightarrow> ParsedModule" where
  "local_b p = ParsedModule ''example.com/b'' (Some ''v1.0.0'') False
                 (Some (ParsedModule p None False None))"

subsection \<open>An example repository\<close>

text \<open>
  The answers of the \<^verbatim>\<open>semver\<close> package on the two version strings of the
  scenarios, and a commit made at 2024-01-02T03:04:05Z.
\<close>

definition example_parse :: "string \<Rightarrow> Version option" where
  "example_parse s =
     (if s = ''1.2.3''
        then Some \<lparr>major = 1, minor = 2, patch = 3, prerelease = None, build = None\<rparr>
      else if s = ''2.0.0-alpha''
        then Some \<lparr>major = 2, minor = 0, patch = 0, prerelease = Some ''alpha'', build = None\<rparr>
      else None)"

definition example_gt :: "Version \<Rightarrow> Version \<Rightarrow> bool" where
  "example_gt a b =
     (major b < major a \<or> (major b = major a \<and>
        (minor b < minor a \<or> (minor b = minor a \<and> patch b < patch a))))"

definition example_semver :: semver where
  "example_semver = \<lparr>version_parse = example_parse, version_gt = example_gt\<rparr>"

definition example_commit :: Commit where
  "example_commit =
     \<lparr>hexsha = ''abcdef0123456789abcdef0123456789abcdef01'', committed_date = 1704164645\<rparr>"



definition example_repo :: Repo where
  "example_repo =
     \<lparr>fetch_error = None, target_commit = example_commit,
      tags_points_at = Inr [''b/v1.2.3''], tags_merged = Inr [''b/v1.2.3'', ''v1.2.3'']\<rparr>"

definition example_main_module :: Module where
  "example_main_module =
     \<lparr>name = ''example.com/a'', original_name = ''example.com/a'',
      real_path = ''example.com/a'', module_version = ''v1.2.4-0.20240102030405-abcdef012345'',
      module_main = False\<rparr>"

definition unversioned_e :: ParsedModule where
  "unversioned_e = ParsedModule ''example.com/e'' None False None"

definition example_module_c :: Module where
  "example_module_c =
     \<lparr>name = ''example.com/c'', original_name = ''example.com/b'',
      real_path = ''example.com/c'', module_version = ''v1.1.0'', module_main = False\<rparr>"

definition example_package :: "string \<Rightarrow> ParsedPackage" where
  "example_package p = \<lparr>import_path = p, standard = False, package_module = Some replaced_b\<rparr>"

definition example_parsed_modules :: "ParsedModule list" where
  "example_parsed_modules = [replaced_b, downloaded_d, local_b ''./b'', unversioned_e]"

definition example_modules :: "Module list" where
  "example_modules =
     [example_module_c,
      \<lparr>name = ''example.com/d'', original_name = ''example.com/d'',
       real_path = ''example.com/d'', module_version = ''v0.1.0'', module_main = False\<rparr>,
      \<lparr>name = ''example.com/b'', original_name = ''example.com/b'',
       real_path = ''example.com/a/b'', module_version = ''v1.2.3'', module_main = False\<rparr>,
      \<lparr>name = ''example.com/e'', original_name = ''example.com/e'',
       real_path = ''example.com/e'', module_version = [], module_main = False\<rparr>]"

section \<open>Theorems\<close>

subsection \<open>The vendor parser\<close>

lemma list_len_cases:
  "length xs = 2 \<Longrightarrow> \<exists>a b. xs = [a, b]"
  "length xs = 3 \<Longrightarrow> \<exists>a b c. xs = [a, b, c]"
  "length xs = 4 \<Longrightarrow> \<exists>a b c d. xs = [a, b, c, d]"
  "length xs = 5 \<Longrightarrow> \<exists>a b c d e. xs = [a, b, c, d, e]"
  by (auto simp: length_Suc_conv eval_nat_numeral)

lemma parse_module_line_shape:
  "parse_module_line l =
     (case module_of_line l of
        Some m \<Rightarrow> Inr m
      | None \<Rightarrow> Inl (fail_for_unexpected_format (''unexpected module line format: '' @ repr l)))"
proof -
  define parts where "parts = split (removeprefix l ''# '')"
  consider "length parts = 2" | "length parts = 3" | "length parts = 4" | "length parts = 5"
    | "length parts \<notin> {2,3,4,5}" by auto
  then show ?thesis
  proof cases
    case 1
    then obtain a b where "parts = [a, b]" using list_len_cases(1) by blast
    then show ?thesis by (simp add: parse_module_line_def module_of_line_def parts_def[symmetric])
  next
    case 2
    then obtain a b c where "parts = [a, b, c]" using list_len_cases(2) by blast
    then show ?thesis by (simp add: parse_module_line_def module_of_line_def parts_def[symmetric])
  next
    case 3
    then obtain a b c d where "parts = [a, b, c, d]" using list_len_cases(3) by blast
    then show ?thesis by (simp add: parse_module_line_def module_of_line_def parts_def[symmetric])
  next
    case 4
    then obtain a b c d e where "parts = [a, b, c, d, e]" using list_len_cases(4) by blast
    then show ?thesis by (simp add: parse_module_line_def module_of_line_def parts_def[symmetric])
  next
    case 5
    then have "documented_shape parts = None"
      by (cases parts rule: documented_shape.cases) auto
    with 5 show ?thesis
      by (simp add: parse_module_line_def module_of_line_def parts_def[symmetric] Let_def)
  qed
qed

lemma emitted_snoc:
  "length ms = length hs \<Longrightarrow> emitted (ms @ [m]) (hs @ [h]) = emitted ms hs @ (if h then [m] else [])"
  by (simp add: emitted_def)

lemma package_before_module_Cons:
  "package_before_module (l # ls) =
     (\<not> startswith l ''# '' \<and> (\<not> startswith l ''#'' \<or> package_before_module ls))"
  by (auto simp: package_before_module_def)

lemma hash_of_module_line: "startswith l ''# '' \<Longrightarrow> startswith l ''#''"
  by (auto simp: startswith_def prefix_def)

lemma not_marker_of_module_line: "startswith l ''# '' \<Longrightarrow> \<not> startswith l ''##''"
  by (auto simp: startswith_def prefix_def)

lemma loop_ok:
  assumes "\<forall>l \<in> set ls. \<not> malformed_line l" "length ms = length hs"
  shows "\<exists>ms' hs'. parse_vendor_loop (ms @ [m]) (hs @ [h]) ls = Inr (ms', hs')
           \<and> emitted ms' hs'
             = emitted ms hs @ (if h \<or> package_before_module ls then [m] else [])
               @ modules_with_packages ls"
  using assms
proof (induction ls arbitrary: ms hs m h)
  case Nil
  then show ?case by (simp add: emitted_snoc package_before_module_def)
next
  case (Cons l ls)
  have rest: "\<forall>l \<in> set ls. \<not> malformed_line l" using Cons.prems by simp
  have ok: "\<not> malformed_line l" using Cons.prems by simp
  consider (module) "startswith l ''# ''"
    | (package) "\<not> startswith l ''#''"
    | (marker) "startswith l ''#''" "\<not> startswith l ''# ''"
    using hash_of_module_line by blast
  then show ?case
  proof cases
    case module
    with ok obtain m2 where m2: "module_of_line l = Some m2"
      by (auto simp: malformed_line_def hash_of_module_line not_marker_of_module_line)
    have len: "length (ms @ [m]) = length (hs @ [h])" using Cons.prems by simp
    from Cons.IH [OF rest len, of m2 False] obtain ms' hs' where
      "parse_vendor_loop ((ms @ [m]) @ [m2]) ((hs @ [h]) @ [False]) ls = Inr (ms', hs')"
      "emitted ms' hs' = emitted (ms @ [m]) (hs @ [h])
          @ (if False \<or> package_before_module ls then [m2] else []) @ modules_with_packages ls"
      by blast
    then show ?thesis
      using module m2 Cons.prems(2)
      by (simp add: parse_module_line_shape emitted_snoc package_before_module_Cons)
  next
    case package
    then have nm: "\<not> startswith l ''# ''" using hash_of_module_line by blast
    have step: "parse_vendor_loop (ms @ [m]) (hs @ [h]) (l # ls)
                  = parse_vendor_loop (ms @ [m]) (hs @ [True]) ls"
      using package nm by simp
    from Cons.IH [OF rest Cons.prems(2), of m True] obtain ms' hs' where
      "parse_vendor_loop (ms @ [m]) (hs @ [True]) ls = Inr (ms', hs')"
      "emitted ms' hs' = emitted ms hs @ [m] @ modules_with_packages ls"
      by auto
    then show ?thesis
      using package nm unfolding step by (simp add: package_before_module_Cons)
  next
    case marker
    with ok have mk: "startswith l ''##''" by (simp add: malformed_line_def)
    from Cons.IH [OF rest Cons.prems(2), of m h] show ?thesis
      using marker mk by (simp add: package_before_module_Cons)
  qed
qed

lemma loop_bad:
  assumes "\<exists>l \<in> set ls. malformed_line l" "length ms = length hs"
  shows "\<exists>reason. parse_vendor_loop ms hs ls = Inl (UnexpectedFormat reason unexpected_format_solution)"
  using assms
proof (induction ls arbitrary: ms hs)
  case Nil
  then show ?case by simp
next
  case (Cons l ls)
  show ?case
  proof (cases "malformed_line l")
    case True
    then show ?thesis
      by (auto simp: malformed_line_def parse_module_line_shape fail_for_unexpected_format_def
          split: option.splits)
  next
    case False
    with Cons.prems have rest: "\<exists>l \<in> set ls. malformed_line l" by simp
    have a: "\<exists>reason. parse_vendor_loop (ms @ [x]) (hs @ [False]) ls
               = Inl (UnexpectedFormat reason unexpected_format_solution)" for x
      using Cons.IH [OF rest, of "ms @ [x]" "hs @ [False]"] Cons.prems(2) by simp
    have b: "\<exists>reason. parse_vendor_loop ms (hs[length hs - 1 := True]) ls
               = Inl (UnexpectedFormat reason unexpected_format_solution)"
      using Cons.IH [OF rest, of ms "hs[length hs - 1 := True]"] Cons.prems(2) by simp
    have c: "\<exists>reason. parse_vendor_loop ms hs ls
               = Inl (UnexpectedFormat reason unexpected_format_solution)"
      using Cons.IH [OF rest Cons.prems(2)] .
    have hs: "ms \<noteq> [] \<Longrightarrow> hs \<noteq> []" using Cons.prems(2) by auto
    have d: "startswith l ''# '' \<Longrightarrow> \<exists>m2. parse_module_line l = Inr m2"
      using False
      by (auto simp: malformed_line_def parse_module_line_shape hash_of_module_line
          not_marker_of_module_line)
    have e: "startswith l ''#'' \<Longrightarrow> \<not> startswith l ''# '' \<Longrightarrow> startswith l ''##''"
      using False by (simp add: malformed_line_def)
    show ?thesis
      using a b c hs d e
      by (auto simp: fail_for_unexpected_format_def)
  qed
qed

lemma loop_empty:
  "(if (\<exists>l \<in> set ls. malformed_line l) \<or> package_before_module ls
      then \<exists>reason. parse_vendor_loop [] [] ls = Inl (UnexpectedFormat reason unexpected_format_solution)
    else \<exists>ms' hs'. parse_vendor_loop [] [] ls = Inr (ms', hs')
           \<and> emitted ms' hs' = modules_with_packages ls)"
proof (induction ls)
  case Nil
  then show ?case by (simp add: emitted_def package_before_module_def)
next
  case (Cons l ls)
  consider (module) "startswith l ''# ''"
    | (package) "\<not> startswith l ''#''"
    | (marker) "startswith l ''#''" "\<not> startswith l ''# ''"
    using hash_of_module_line by blast
  then show ?case
  proof cases
    case module
    show ?thesis
    proof (cases "\<exists>l \<in> set (l # ls). malformed_line l")
      case True
      then show ?thesis using loop_bad [of "l # ls" "[]" "[]"] by simp
    next
      case False
      then have ok: "\<not> malformed_line l" and rest: "\<forall>l \<in> set ls. \<not> malformed_line l" by auto
      from module ok obtain m2 where m2: "module_of_line l = Some m2"
        by (auto simp: malformed_line_def hash_of_module_line not_marker_of_module_line)
      from loop_ok [OF rest, of "[]" "[]" m2 False] obtain ms' hs' where
        "parse_vendor_loop [m2] [False] ls = Inr (ms', hs')"
        "emitted ms' hs' = (if package_before_module ls then [m2] else []) @ modules_with_packages ls"
        by (auto simp: emitted_def)
      then show ?thesis
        using False module m2
        by (simp add: parse_module_line_shape package_before_module_Cons)
    qed
  next
    case package
    then show ?thesis
      using hash_of_module_line [of l]
      by (auto simp: package_before_module_Cons fail_for_unexpected_format_def)
  next
    case marker
    show ?thesis
    proof (cases "malformed_line l")
      case True
      then show ?thesis using loop_bad [of "l # ls" "[]" "[]"] by simp
    next
      case False
      with marker have mk: "startswith l ''##''" by (simp add: malformed_line_def)
      show ?thesis using Cons.IH marker mk False
        by (simp add: package_before_module_Cons)
    qed
  qed
qed

lemma parse_vendor_lines_spec:
  "(if (\<exists>l \<in> set ls. malformed_line l) \<or> package_before_module ls
      then \<exists>reason. parse_vendor_lines ls = Inl (UnexpectedFormat reason unexpected_format_solution)
    else parse_vendor_lines ls = Inr (modules_with_packages ls))"
  using loop_empty [of ls]
  by (auto simp: parse_vendor_lines_def emitted_def split: if_splits)


lemma loop_skips_markers:
  "parse_vendor_loop ms hs (filter (\<lambda>l. \<not> startswith l ''##'') ls) = parse_vendor_loop ms hs ls"
proof (induction ls arbitrary: ms hs)
  case Nil
  then show ?case by simp
next
  case (Cons l ls)
  have "startswith l ''##'' \<Longrightarrow> startswith l ''#'' \<and> \<not> startswith l ''# ''"
    by (auto simp: startswith_def prefix_def)
  then show ?case using Cons.IH by (auto split: sum.splits)
qed


text \<open>
  C7. When \<^verbatim>\<open>vendor/modules.txt\<close> is a file, the vendor parser raises
  \<^verbatim>\<open>UnexpectedFormat\<close> exactly when some line starts with \<open>#\<close>, does not start
  with \<open>##\<close> and is not a module line of one of the five documented shapes, or a
  package line comes before any module line; otherwise it returns exactly the modules
  that have at least one package line, in the order of the file. Lines that start
  with \<open>##\<close> are ignored: leaving them out changes nothing.
\<close>

theorem parse_vendor_spec:
  assumes "join_within_root module_dir ''vendor/modules.txt'' = Some modules_txt"
    and "node modules_txt = File text"
  shows "(if (\<exists>l \<in> set (splitlines text). malformed_line l)
             \<or> package_before_module (splitlines text)
          then \<exists>reason. parse_vendor module_dir
                 = Inl (UnexpectedFormat reason unexpected_format_solution)
          else parse_vendor module_dir = Inr (modules_with_packages (splitlines text)))
       \<and> parse_vendor module_dir
           = parse_vendor_lines (filter (\<lambda>l. \<not> startswith l ''##'') (splitlines text))"
proof -
  have "parse_vendor module_dir = parse_vendor_lines (splitlines text)"
    using assms by (simp add: parse_vendor_def)
  moreover have "parse_vendor_lines (filter (\<lambda>l. \<not> startswith l ''##'') (splitlines text))
      = parse_vendor_lines (splitlines text)"
    by (simp add: parse_vendor_lines_def loop_skips_markers)
  ultimately show ?thesis
    using parse_vendor_lines_spec [of "splitlines text"] by simp
qed

theorem parse_vendor_spec_witness:
  "parse_vendor (example_app_dir Dir (File example_modules_txt))
     = Inr [ParsedModule ''example.com/a'' (Some ''v1.0.0'') False None]
   \<and> (\<exists>reason. parse_vendor (example_app_dir Dir (File ''example.com/a/pkg\<newline># example.com/a v1.0.0''))
         = Inl (UnexpectedFormat reason unexpected_format_solution))"
proof -
  have j: "join_within_root (example_app_dir Dir (File t)) ''vendor/modules.txt''
             = Some (leaf ''vendor/modules.txt'' (File t))" for t
    by (simp add: example_app_dir_def)
  have n: "node (leaf ''vendor/modules.txt'' (File t)) = File t" for t
    by (simp add: leaf_def)
  have l1: "splitlines example_modules_txt
    = [''# example.com/a v1.0.0'', ''## explicit'', ''example.com/a/pkg'', ''# example.com/b v2.0.0 => ./b'']"
    by (simp add: example_modules_txt_def splitlines_def is_linebreak_def)
  have l2: "splitlines ''example.com/a/pkg\<newline># example.com/a v1.0.0''
    = [''example.com/a/pkg'', ''# example.com/a v1.0.0'']"
    by (simp add: splitlines_def is_linebreak_def)
  have a: "parse_vendor (example_app_dir Dir (File example_modules_txt))
     = Inr [ParsedModule ''example.com/a'' (Some ''v1.0.0'') False None]"
    using parse_vendor_spec [OF j n, of example_modules_txt, THEN conjunct1] unfolding l1
    by (simp add: split_def startswith_def removeprefix_def is_space_def
      malformed_line_def package_before_module_def module_of_line_def)
  have b: "\<exists>reason. parse_vendor (example_app_dir Dir (File ''example.com/a/pkg\<newline># example.com/a v1.0.0''))
         = Inl (UnexpectedFormat reason unexpected_format_solution)"
    using parse_vendor_spec [OF j n, of "''example.com/a/pkg\<newline># example.com/a v1.0.0''", THEN conjunct1] unfolding l2
    by (simp add: startswith_def package_before_module_def)
  show ?thesis using a b by blast
qed



text \<open>
  C10. When \<^verbatim>\<open>vendor/modules.txt\<close> does not exist, the vendor parser returns the
  empty list and raises nothing, so \<^verbatim>\<open>_vendor_deps\<close> hands an empty list of
  downloaded modules to the resolver whenever \<^verbatim>\<open>go mod vendor\<close> ran and the vendor
  tree was allowed to change or did not change.
\<close>

theorem parse_vendor_missing_file:
  assumes "join_within_root module_dir ''vendor/modules.txt'' = Some modules_txt"
    and "node modules_txt = Absent"
  shows "parse_vendor module_dir = Inr []
       \<and> (can_make_changes \<or> vendor_changed = Inr False \<longrightarrow>
            vendor_deps module_dir can_make_changes (Inr out) vendor_changed = Inr [])"
  using assms by (auto simp: parse_vendor_def vendor_deps_def)

theorem parse_vendor_missing_file_witness:
  "parse_vendor (example_app_dir Dir Absent) = Inr []
   \<and> vendor_deps (example_app_dir Dir Absent) True (Inr []) (Inl GitCommandError) = Inr []
   \<and> vendor_deps (example_app_dir Dir Absent) False (Inr []) (Inr False) = Inr []"
proof -
  have j: "join_within_root (example_app_dir Dir Absent) ''vendor/modules.txt''
             = Some (leaf ''vendor/modules.txt'' Absent)"
    by (simp add: example_app_dir_def)
  have n: "node (leaf ''vendor/modules.txt'' Absent) = Absent"
    by (simp add: leaf_def)
  show ?thesis
    using parse_vendor_missing_file [OF j n, of True "Inl GitCommandError" "[]"]
      parse_vendor_missing_file [OF j n, of False "Inr False" "[]"]
    by simp
qed

subsection \<open>Deduplication of the resolved modules\<close>

lemma map_of_setdefault:
  "map_of (setdefault d k v) k' =
     (case map_of d k' of Some w \<Rightarrow> Some w | None \<Rightarrow> if k' = k then Some v else None)"
  by (auto simp: setdefault_def map_of_append map_add_def split: option.splits)

lemma distinct_setdefault:
  "distinct (map fst d) \<Longrightarrow> distinct (map fst (setdefault d k v))"
  by (auto simp: setdefault_def map_of_eq_None_iff split: option.splits)

lemma keyed_setdefault:
  "\<forall>(k, v) \<in> set d. f v = k \<Longrightarrow> \<forall>(k', v') \<in> set (setdefault d (f v) v). f v' = k'"
  by (auto simp: setdefault_def split: option.splits)

lemma deduplicate_loop_inv:
  assumes "distinct (map fst d)" "\<forall>(k, v) \<in> set d. get_unique_key v = k"
  shows "distinct (map fst (deduplicate_loop d ms))
       \<and> (\<forall>(k, v) \<in> set (deduplicate_loop d ms). get_unique_key v = k)
       \<and> (\<forall>k. map_of (deduplicate_loop d ms) k =
              (case map_of d k of
                 Some w \<Rightarrow> Some w
               | None \<Rightarrow> find (\<lambda>x. get_unique_key x = k) ms))"
  using assms
proof (induction ms arbitrary: d)
  case Nil
  then show ?case by (auto split: option.splits)
next
  case (Cons m ms)
  let ?d = "setdefault d (get_unique_key m) m"
  have 1: "distinct (map fst ?d)" using Cons.prems(1) by (rule distinct_setdefault)
  have 2: "\<forall>(k, v) \<in> set ?d. get_unique_key v = k"
    using Cons.prems(2) by (rule keyed_setdefault)
  from Cons.IH [OF 1 2] show ?case
    by (auto simp: map_of_setdefault split: option.splits)
qed

lemma deduplicate_loop_empty:
  "distinct (map fst (deduplicate_loop [] ms))
 \<and> map fst (deduplicate_loop [] ms) = map get_unique_key (map snd (deduplicate_loop [] ms))
 \<and> (\<forall>k. map_of (deduplicate_loop [] ms) k = find (\<lambda>x. get_unique_key x = k) ms)"
proof -
  from deduplicate_loop_inv [of "[]" ms]
  have d: "distinct (map fst (deduplicate_loop [] ms))"
    and k: "\<forall>(k, v) \<in> set (deduplicate_loop [] ms). get_unique_key v = k"
    and f: "\<forall>k. map_of (deduplicate_loop [] ms) k = find (\<lambda>x. get_unique_key x = k) ms"
    by auto
  have "\<forall>(k, v) \<in> set xs. get_unique_key v = k
      \<Longrightarrow> map fst xs = map get_unique_key (map snd xs)"
    for xs :: "((string \<times> string option) \<times> ParsedModule) list"
    by (induction xs) auto
  from this [OF k] have e: "map fst (deduplicate_loop [] ms)
      = map get_unique_key (map snd (deduplicate_loop [] ms))" .
  show ?thesis using d e f by blast
qed

text \<open>
  C4. The merged module list holds at most one module per uniqueness key; every module
  kept is the first one with its key in the walk over the package modules and then the
  downloaded modules; every key of the input is kept. The key is
  \<open>(replace.path, replace.version)\<close> for a version replacement,
  \<open>(path, replace.path)\<close> for a local-path replacement and \<open>(path, version)\<close> otherwise.
\<close>

theorem deduplicate_resolved_modules_spec:
  "distinct (map get_unique_key (deduplicate_resolved_modules package_modules downloaded_modules))
 \<and> (\<forall>m \<in> set (deduplicate_resolved_modules package_modules downloaded_modules).
       find (\<lambda>x. get_unique_key x = get_unique_key m) (package_modules @ downloaded_modules)
         = Some m)
 \<and> (\<forall>m \<in> set (package_modules @ downloaded_modules).
       \<exists>kept \<in> set (deduplicate_resolved_modules package_modules downloaded_modules).
         get_unique_key kept = get_unique_key m)
 \<and> (replace m = None \<longrightarrow> get_unique_key m = (path m, version m))
 \<and> (replace m = Some r \<and> version r = Some v \<and> v \<noteq> [] \<longrightarrow>
       get_unique_key m = (path r, Some v))
 \<and> (replace m = Some r \<and> version r = None \<longrightarrow> get_unique_key m = (path m, Some (path r)))"
proof -
  let ?ms = "package_modules @ downloaded_modules"
  let ?d = "deduplicate_loop [] ?ms"
  from deduplicate_loop_empty [of ?ms]
  have d: "distinct (map fst ?d)"
    and k: "map fst ?d = map get_unique_key (map snd ?d)"
    and f: "\<And>k. map_of ?d k = find (\<lambda>x. get_unique_key x = k) ?ms"
    by auto
  have 1: "distinct (map get_unique_key (deduplicate_resolved_modules package_modules downloaded_modules))"
    using d k by (simp add: deduplicate_resolved_modules_def)
  have 2: "find (\<lambda>x. get_unique_key x = get_unique_key m) ?ms = Some m"
    if "m \<in> set (deduplicate_resolved_modules package_modules downloaded_modules)" for m
  proof -
    from that obtain kk where kk: "(kk, m) \<in> set ?d"
      by (auto simp: deduplicate_resolved_modules_def)
    then have "map_of ?d kk = Some m" using d by simp
    moreover have "kk = get_unique_key m"
    proof -
      from kk have "kk \<in> fst ` set ?d" by force
      from kk d have "map_of ?d kk = Some m" by simp
      then have "find (\<lambda>x. get_unique_key x = kk) ?ms = Some m" by (simp add: f)
      then show ?thesis by (auto simp: find_Some_iff)
    qed
    ultimately show ?thesis by (simp add: f)
  qed
  have 3: "\<exists>kept \<in> set (deduplicate_resolved_modules package_modules downloaded_modules).
         get_unique_key kept = get_unique_key m" if "m \<in> set ?ms" for m
  proof -
    from that have "find (\<lambda>x. get_unique_key x = get_unique_key m) ?ms \<noteq> None"
      by (auto simp: find_None_iff)
    then obtain kept where kept: "map_of ?d (get_unique_key m) = Some kept"
      by (auto simp: f)
    then have "(get_unique_key m, kept) \<in> set ?d" by (rule map_of_SomeD)
    moreover from kept have "get_unique_key kept = get_unique_key m"
      by (auto simp: f find_Some_iff)
    ultimately show ?thesis
      by (force simp: deduplicate_resolved_modules_def)
  qed
  have 4: "(replace m = None \<longrightarrow> get_unique_key m = (path m, version m))
 \<and> (replace m = Some r \<and> version r = Some v \<and> v \<noteq> [] \<longrightarrow>
       get_unique_key m = (path r, Some v))
 \<and> (replace m = Some r \<and> version r = None \<longrightarrow> get_unique_key m = (path m, Some (path r)))"
    by (simp add: get_unique_key_def truthy_def)
  show ?thesis using 1 2 3 4 by blast
qed

theorem deduplicate_resolved_modules_spec_witness:
  "deduplicate_resolved_modules [replaced_b] [downloaded_c, downloaded_d]
     = [replaced_b, downloaded_d]
   \<and> distinct (map get_unique_key
        (deduplicate_resolved_modules [replaced_b] [downloaded_c, downloaded_d]))
   \<and> find (\<lambda>x. get_unique_key x = get_unique_key replaced_b)
        ([replaced_b] @ [downloaded_c, downloaded_d]) = Some replaced_b
   \<and> get_unique_key replaced_b = (''example.com/c'', Some ''v1.1.0'')
   \<and> get_unique_key downloaded_c = (''example.com/c'', Some ''v1.1.0'')
   \<and> get_unique_key (local_b ''./b'') = (''example.com/b'', Some ''./b'')"
proof -
  have r: "deduplicate_resolved_modules [replaced_b] [downloaded_c, downloaded_d]
     = [replaced_b, downloaded_d]"
    by (simp add: deduplicate_resolved_modules_def setdefault_def get_unique_key_def truthy_def
        replaced_b_def downloaded_c_def downloaded_d_def)
  have k1: "replace replaced_b = Some downloaded_c \<and> version downloaded_c = Some ''v1.1.0''
            \<and> ''v1.1.0'' \<noteq> []"
    by (simp add: replaced_b_def downloaded_c_def)
  have k2: "replace downloaded_c = None" by (simp add: downloaded_c_def)
  have k3: "replace (local_b ''./b'') = Some (ParsedModule ''./b'' None False None)
            \<and> version (ParsedModule ''./b'' None False None) = None"
    by (simp add: local_b_def)
  show ?thesis
    using deduplicate_resolved_modules_spec
        [of "[replaced_b]" "[downloaded_c, downloaded_d]" replaced_b downloaded_c "''v1.1.0''"]
      deduplicate_resolved_modules_spec
        [of "[replaced_b]" "[downloaded_c, downloaded_d]" downloaded_c downloaded_c "''v1.1.0''"]
      deduplicate_resolved_modules_spec
        [of "[replaced_b]" "[downloaded_c, downloaded_d]" "local_b ''./b''"
          "ParsedModule ''./b'' None False None" "''v1.1.0''"]
      k1 k2 k3
    unfolding r
    by (simp add: downloaded_c_def replaced_b_def local_b_def)
qed

subsection \<open>Validation of local replacements\<close>

lemma replaced_paths_Cons:
  "replaced_paths (m # ms) =
     (case replace m of
        None \<Rightarrow> replaced_paths ms
      | Some r \<Rightarrow> if startswith (path r) ''.'' then (path m, path r) # replaced_paths ms
                  else replaced_paths ms)"
  by (simp add: replaced_paths_def List.map_filter_simps split: option.splits)

lemma replaced_paths_Nil: "replaced_paths [] = []"
  by (simp add: replaced_paths_def List.map_filter_simps)

lemma validate_find:
  "validate_local_replacements ms app_path =
     (case find (is_local_escape app_path) ms of
        None \<Rightarrow> Inr ()
      | Some m \<Rightarrow> Inl (PathOutsideRoot
                   (Some (local_replacement_solution (path m) (path (the (replace m)))))))"
proof (induction ms)
  case Nil
  then show ?case by (simp add: validate_local_replacements_def replaced_paths_Nil)
next
  case (Cons m ms)
  then show ?case
    by (auto simp: validate_local_replacements_def replaced_paths_Cons is_local_escape_def
        split: option.splits)
qed

lemma solution_names:
  "sublist nm (local_replacement_solution nm p) \<and> sublist p (local_replacement_solution nm p)"
proof -
  have "\<exists>a b. local_replacement_solution nm p = a @ nm @ b"
    unfolding local_replacement_solution_def by (metis append.assoc)
  moreover have "\<exists>a b. local_replacement_solution nm p = a @ p @ b"
    unfolding local_replacement_solution_def by (metis append.assoc)
  ultimately show ?thesis by (simp add: sublist_def)
qed

text \<open>
  C8. Validation of local replacements raises \<^verbatim>\<open>PathOutsideRoot\<close>, with a solution
  text naming the module and its replacement path, exactly when some module has a
  replacement path that begins with a dot and does not join within the app root;
  otherwise it returns. Paths that do not begin with a dot are never joined: two roots
  that agree on the dotted paths give the same result.
\<close>

theorem validate_local_replacements_spec:
  "(if \<exists>m \<in> set modules. is_local_escape app_path m
      then \<exists>m r. m \<in> set modules \<and> replace m = Some r \<and> startswith (path r) ''.''
             \<and> join_within_root app_path (path r) = None
             \<and> validate_local_replacements modules app_path
                 = Inl (PathOutsideRoot (Some (local_replacement_solution (path m) (path r))))
             \<and> sublist (path m) (local_replacement_solution (path m) (path r))
             \<and> sublist (path r) (local_replacement_solution (path m) (path r))
    else validate_local_replacements modules app_path = Inr ())
   \<and> ((\<forall>p. startswith p ''.'' \<longrightarrow>
          (join_within_root app_path p = None) = (join_within_root other p = None)) \<longrightarrow>
        validate_local_replacements modules other = validate_local_replacements modules app_path)"
proof -
  have a: "(if \<exists>m \<in> set modules. is_local_escape app_path m
      then \<exists>m r. m \<in> set modules \<and> replace m = Some r \<and> startswith (path r) ''.''
             \<and> join_within_root app_path (path r) = None
             \<and> validate_local_replacements modules app_path
                 = Inl (PathOutsideRoot (Some (local_replacement_solution (path m) (path r))))
             \<and> sublist (path m) (local_replacement_solution (path m) (path r))
             \<and> sublist (path r) (local_replacement_solution (path m) (path r))
    else validate_local_replacements modules app_path = Inr ())"
  proof (cases "find (is_local_escape app_path) modules")
    case None
    then have no: "\<not> (\<exists>m \<in> set modules. is_local_escape app_path m)"
      by (simp add: find_None_iff)
    have "validate_local_replacements modules app_path = Inr ()"
      using None by (simp add: validate_find)
    with no show ?thesis by simp
  next
    case (Some m)
    then have m: "m \<in> set modules" "is_local_escape app_path m"
      by (auto simp: find_Some_iff)
    then obtain r where r: "replace m = Some r" "startswith (path r) ''.''"
      "join_within_root app_path (path r) = None"
      by (auto simp: is_local_escape_def split: option.splits)
    have "validate_local_replacements modules app_path
        = Inl (PathOutsideRoot (Some (local_replacement_solution (path m) (path r))))"
      using Some r by (simp add: validate_find)
    with m r solution_names [of "path m" "path r"] show ?thesis by auto
  qed
  have b: "validate_local_replacements modules other = validate_local_replacements modules app_path"
    if "\<forall>p. startswith p ''.'' \<longrightarrow>
          (join_within_root app_path p = None) = (join_within_root other p = None)"
  proof -
    have "is_local_escape other = is_local_escape app_path"
      using that by (auto simp: is_local_escape_def fun_eq_iff split: option.splits)
    then show ?thesis by (simp add: validate_find)
  qed
  show ?thesis using a b by blast
qed

theorem validate_local_replacements_spec_witness:
  "validate_local_replacements [downloaded_d, local_b ''../outside''] (example_app_dir Dir Absent)
     = Inl (PathOutsideRoot (Some (local_replacement_solution ''example.com/b'' ''../outside'')))
   \<and> sublist ''example.com/b'' (local_replacement_solution ''example.com/b'' ''../outside'')
   \<and> sublist ''../outside'' (local_replacement_solution ''example.com/b'' ''../outside'')
   \<and> validate_local_replacements [downloaded_d, local_b ''./b'', replaced_b]
        (example_app_dir Dir Absent) = Inr ()"
proof -
  let ?app = "example_app_dir Dir Absent"
  have d: "\<not> is_local_escape ?app downloaded_d"
    by (simp add: is_local_escape_def downloaded_d_def)
  have r: "\<not> is_local_escape ?app replaced_b"
    by (simp add: is_local_escape_def replaced_b_def startswith_def)
  have o: "is_local_escape ?app (local_b ''../outside'')"
    by (simp add: is_local_escape_def local_b_def startswith_def example_app_dir_def)
  have i: "\<not> is_local_escape ?app (local_b ''./b'')"
    by (simp add: is_local_escape_def local_b_def startswith_def example_app_dir_def)
  have rd: "replace downloaded_d = None" by (simp add: downloaded_d_def)
  have ro: "replace (local_b p) = Some (ParsedModule p None False None)
            \<and> path (local_b p) = ''example.com/b''" for p
    by (simp add: local_b_def)
  from validate_local_replacements_spec
      [of "[downloaded_d, local_b ''../outside'']" ?app ?app, THEN conjunct1] o
  obtain m r where m: "m \<in> set [downloaded_d, local_b ''../outside'']" "replace m = Some r"
    and v: "validate_local_replacements [downloaded_d, local_b ''../outside''] ?app
                 = Inl (PathOutsideRoot (Some (local_replacement_solution (path m) (path r))))"
    and s: "sublist (path m) (local_replacement_solution (path m) (path r))"
       "sublist (path r) (local_replacement_solution (path m) (path r))"
    by auto
  from m rd have "m = local_b ''../outside''" by auto
  with m ro have "path m = ''example.com/b''" "path r = ''../outside''" by auto
  with v s have a: "validate_local_replacements [downloaded_d, local_b ''../outside''] ?app
     = Inl (PathOutsideRoot (Some (local_replacement_solution ''example.com/b'' ''../outside'')))
   \<and> sublist ''example.com/b'' (local_replacement_solution ''example.com/b'' ''../outside'')
   \<and> sublist ''../outside'' (local_replacement_solution ''example.com/b'' ''../outside'')"
    by simp
  have b: "validate_local_replacements [downloaded_d, local_b ''./b'', replaced_b] ?app = Inr ()"
    using validate_local_replacements_spec
      [of "[downloaded_d, local_b ''./b'', replaced_b]" ?app ?app, THEN conjunct1] d r i
    by simp
  show ?thesis using a b by blast
qed

subsection \<open>The version reifier\<close>

lemma split_digits:
  "s = take (length s - length (takeWhile P (rev s))) s @ rev (takeWhile P (rev s))"
proof -
  have "rev s = takeWhile P (rev s) @ dropWhile P (rev s)" by simp
  then have "s = rev (dropWhile P (rev s)) @ rev (takeWhile P (rev s))"
    by (metis rev_append rev_rev_ident)
  moreover have "length (rev (dropWhile P (rev s))) = length s - length (takeWhile P (rev s))"
    by (metis (no_types) add_diff_cancel_left' length_append length_rev takeWhile_dropWhile_id)
  ultimately show ?thesis
    by (metis append_eq_conv_conj)
qed

lemma not_digit_v: "\<not> is_digit CHR ''v''" "\<not> is_digit CHR 0x0A"
  by (simp_all add: is_digit_def)

lemma digits_suffix:
  assumes "\<forall>c \<in> set ds. is_digit c"
  shows "rev (takeWhile is_digit (rev (a @ ''/v'' @ ds))) = ds"
proof -
  have "rev (a @ ''/v'' @ ds) = rev ds @ (CHR ''v'' # CHR ''/'' # rev a)" by simp
  moreover have "takeWhile is_digit (rev ds @ (CHR ''v'' # CHR ''/'' # rev a))
      = rev ds @ takeWhile is_digit (CHR ''v'' # CHR ''/'' # rev a)"
    by (rule takeWhile_append2) (use assms in auto)
  moreover have "takeWhile is_digit (CHR ''v'' # CHR ''/'' # rev a) = []"
    by (simp add: not_digit_v)
  ultimately show ?thesis by simp
qed

lemma match_major_version_intro:
  assumes "a \<noteq> []" "CHR 0x0A \<notin> set a" "ds \<noteq> []" "\<forall>c \<in> set ds. is_digit c"
    "e = [] \<or> e = [CHR 0x0A]"
  shows "match_major_version (a @ ''/v'' @ ds @ e) = Some (int_of_digits ds)"
proof -
  let ?s = "a @ ''/v'' @ ds"
  have last_digit: "is_digit (last ds)" using assms(3,4) by simp
  have strip: "(if a @ ''/v'' @ ds @ e \<noteq> [] \<and> last (a @ ''/v'' @ ds @ e) = CHR 0x0A
                 then butlast (a @ ''/v'' @ ds @ e) else a @ ''/v'' @ ds @ e) = ?s"
  proof (cases "e = []")
    case True
    have "last (a @ ''/v'' @ ds) = last ds" using assms(3) by simp
    with last_digit have "last (a @ ''/v'' @ ds) \<noteq> CHR 0x0A"
      using not_digit_v(2) by metis
    with True show ?thesis by simp
  next
    case False
    with assms(5) have e: "e = [CHR 0x0A]" by simp
    have "a @ ''/v'' @ ds @ e = ?s @ [CHR 0x0A]" using e by simp
    then show ?thesis by (simp add: butlast_append)
  qed
  have d: "rev (takeWhile is_digit (rev ?s)) = ds" using assms(4) by (rule digits_suffix)
  have f: "take (length ?s - length ds) ?s = a @ ''/v''" by simp
  have g: "suffix ''/v'' (a @ ''/v'')" by (simp add: suffix_def)
  show ?thesis
    unfolding match_major_version_def strip Let_def d f
    using assms(1,2,3) g by simp
qed

lemma match_major_version_elim:
  assumes "match_major_version module_name = Some n"
  shows "has_major_suffix module_name n"
proof -
  define s where "s = (if module_name \<noteq> [] \<and> last module_name = CHR 0x0A
                 then butlast module_name else module_name)"
  define ds where "ds = rev (takeWhile is_digit (rev s))"
  define front where "front = take (length s - length ds) s"
  from assms have c: "ds \<noteq> []" "suffix ''/v'' front" "2 < length front"
    "CHR 0x0A \<notin> set front" "n = int_of_digits ds"
    unfolding match_major_version_def s_def [symmetric] Let_def ds_def [symmetric]
      front_def [symmetric]
    by (auto split: if_splits)
  have s: "s = front @ ds"
    unfolding front_def ds_def using split_digits [of s is_digit] by simp
  from c(2) obtain a where a: "front = a @ ''/v''" by (auto simp: suffix_def)
  with c(3,4) have a2: "a \<noteq> []" "CHR 0x0A \<notin> set a" by auto
  have dig: "\<forall>c \<in> set ds. is_digit c"
    unfolding ds_def using set_takeWhileD by fastforce
  obtain e where e: "module_name = s @ e" "e = [] \<or> e = [CHR 0x0A]"
  proof (cases "module_name \<noteq> [] \<and> last module_name = CHR 0x0A")
    case True
    then have "module_name = s @ [CHR 0x0A]"
      unfolding s_def by (metis append_butlast_last_id)
    then show ?thesis using that by blast
  next
    case False
    then have "module_name = s @ []" unfolding s_def by auto
    then show ?thesis using that by blast
  qed
  show ?thesis
    unfolding has_major_suffix_def
    using e s a a2 c(1,5) dig by (intro exI [of _ a] exI [of _ ds] exI [of _ e]) simp
qed

lemma match_major_version_iff:
  "match_major_version module_name = Some n \<longleftrightarrow> has_major_suffix module_name n"
proof
  assume "match_major_version module_name = Some n"
  then show "has_major_suffix module_name n" by (rule match_major_version_elim)
next
  assume "has_major_suffix module_name n"
  then show "match_major_version module_name = Some n"
    unfolding has_major_suffix_def using match_major_version_intro by blast
qed

text \<open>
  C3, as the code has it. The list of major versions to try is \<open>[N]\<close> when the module
  name ends in \<open>/vN\<close> with \<open>N\<close> at least 1 (after a non-empty prefix), and
  \<open>[1, 0]\<close> for every other name: a name that ends in \<open>/v0\<close>, and a name with no
  such ending.
\<close>

theorem major_versions_to_try_spec:
  "(has_major_suffix module_name n \<and> 1 \<le> n \<longrightarrow>
      major_versions_to_try (match_major_version module_name) = [n])
   \<and> (has_major_suffix module_name 0 \<longrightarrow>
      major_versions_to_try (match_major_version module_name) = [1, 0])
   \<and> ((\<forall>k. \<not> has_major_suffix module_name k) \<longrightarrow>
      major_versions_to_try (match_major_version module_name) = [1, 0])"
proof -
  have a: "major_versions_to_try (match_major_version module_name) = [n]"
    if "has_major_suffix module_name n" "1 \<le> n"
    using that by (simp add: match_major_version_iff [symmetric] major_versions_to_try_def)
  have b: "major_versions_to_try (match_major_version module_name) = [1, 0]"
    if "has_major_suffix module_name 0"
    using that by (simp add: match_major_version_iff [symmetric] major_versions_to_try_def)
  have c: "major_versions_to_try (match_major_version module_name) = [1, 0]"
    if "\<forall>k. \<not> has_major_suffix module_name k"
  proof -
    from that have "match_major_version module_name = None"
      by (metis match_major_version_iff not_Some_eq)
    then show ?thesis by (simp add: major_versions_to_try_def)
  qed
  show ?thesis using a b c by blast
qed

lemma example_suffix:
  assumes "ds \<noteq> []" "\<forall>c \<in> set ds. is_digit c"
  shows "has_major_suffix (''example.com/a/v'' @ ds) (int_of_digits ds)"
  unfolding has_major_suffix_def
  using assms
  by (intro exI [of _ "''example.com/a''"] exI [of _ ds] exI [of _ "[]"]) simp

theorem major_versions_to_try_spec_witness:
  "major_versions_to_try (match_major_version ''example.com/a/v2'') = [2]
   \<and> major_versions_to_try (match_major_version ''example.com/a/v0'') = [1, 0]"
proof -
  have 2: "has_major_suffix ''example.com/a/v2'' 2"
    using example_suffix [of "''2''"] by (simp add: is_digit_def int_of_digits_def)
  have 0: "has_major_suffix ''example.com/a/v0'' 0"
    using example_suffix [of "''0''"] by (simp add: is_digit_def int_of_digits_def)
  show ?thesis
    using major_versions_to_try_spec [of "''example.com/a/v2''" 2]
      major_versions_to_try_spec [of "''example.com/a/v0''" 0] 2 0
    by simp
qed

text \<open>
  A name that ends in \<open>/v1\<close> gets the list \<open>[1]\<close>, not \<open>[1, 0]\<close>.
\<close>

theorem major_versions_to_try_v1_counterexample:
  "major_versions_to_try (match_major_version ''example.com/a/v1'') = [1]
   \<and> major_versions_to_try (match_major_version ''example.com/a/v1'') \<noteq> [1, 0]"
  by (simp add: major_versions_to_try_def match_major_version_def is_digit_def
      int_of_digits_def suffix_def)

subsection \<open>The time of a commit\<close>












































lemma strftime_examples:
  "strftime \<lparr>year = 1970, month = 1, day = 1, hour = 0, minute = 0, second = 0\<rparr>
     = ''19700101000000''"
  "strftime \<lparr>year = 2000, month = 2, day = 29, hour = 23, minute = 59, second = 59\<rparr>
     = ''20000229235959''"
  "strftime \<lparr>year = 2000, month = 3, day = 1, hour = 0, minute = 0, second = 0\<rparr>
     = ''20000301000000''"
  "strftime \<lparr>year = 9999, month = 12, day = 31, hour = 23, minute = 59, second = 59\<rparr>
     = ''99991231235959''"
  by (simp_all add: strftime_def zero_pad_def str_nat.simps digit_char_def)




subsection \<open>Pseudo-versions\<close>







subsection \<open>Modules and packages\<close>

lemma str_replace_empty_last_aux:
  "new = [] \<Longrightarrow> old \<noteq> [] \<Longrightarrow> t \<noteq> [] \<Longrightarrow> str_replace t old new = []
     \<Longrightarrow> last t = last old"
proof (induction t old new rule: str_replace.induct)
  case (1 old new)
  then show ?case by simp
next
  case (2 c cs old new)
  note old = \<open>old \<noteq> []\<close> and new = \<open>new = []\<close>
  show ?case
  proof (cases "prefix old (c # cs)")
    case True
    then obtain rest where rest: "c # cs = old @ rest" by (auto simp: prefix_def)
    then have d: "drop (length old) (c # cs) = rest" by (metis append_eq_conv_conj)
    from "2.prems" True d have e: "str_replace rest old new = []" by simp
    show ?thesis
    proof (cases "rest = []")
      case True
      with rest old show ?thesis by simp
    next
      case False
      from "2.IH"(1) [OF old True new old] False e d
      have "last rest = last old" by simp
      with rest False show ?thesis by simp
    qed
  next
    case False
    with "2.prems" show ?thesis by simp
  qed
qed

lemma str_replace_empty_last:
  "old \<noteq> [] \<Longrightarrow> t \<noteq> [] \<Longrightarrow> str_replace t old [] = [] \<Longrightarrow> last t = last old"
  by (rule str_replace_empty_last_aux [OF refl])

lemma str_replace_keeps_last_aux:
  "new = [] \<Longrightarrow> old \<noteq> [] \<Longrightarrow> t \<noteq> [] \<Longrightarrow> last t \<noteq> last old \<Longrightarrow>
     str_replace t old new \<noteq> [] \<and> last (str_replace t old new) = last t"
proof (induction t old new rule: str_replace.induct)
  case (1 old new)
  then show ?case by simp
next
  case (2 c cs old new)
  note old = \<open>old \<noteq> []\<close> and new = \<open>new = []\<close>
    and diff = \<open>last (c # cs) \<noteq> last old\<close>
  show ?case
  proof (cases "prefix old (c # cs)")
    case True
    then obtain rest where rest: "c # cs = old @ rest" by (auto simp: prefix_def)
    then have d: "drop (length old) (c # cs) = rest" by (metis append_eq_conv_conj)
    have ne: "rest \<noteq> []" using rest diff by (metis append_Nil2)
    then have l: "last rest = last (c # cs)" using rest by (metis last_appendR)
    from "2.IH"(1) [OF old True new old] diff ne l d
    have "str_replace rest old new \<noteq> [] \<and> last (str_replace rest old new) = last rest"
      by simp
    with True old new d l show ?thesis by simp
  next
    case False
    show ?thesis
    proof (cases "cs = []")
      case True
      with False old new show ?thesis by simp
    next
      case ne: False
      then have l: "last cs = last (c # cs)" by simp
      from "2.IH"(2) [OF old False new old ne] diff l
      have "str_replace cs old new \<noteq> [] \<and> last (str_replace cs old new) = last cs"
        by simp
      with False old l show ?thesis by simp
    qed
  qed
qed

lemma str_replace_keeps_last:
  "old \<noteq> [] \<Longrightarrow> t \<noteq> [] \<Longrightarrow> last t \<noteq> last old \<Longrightarrow>
     str_replace t old [] \<noteq> [] \<and> last (str_replace t old []) = last t"
  by (rule str_replace_keeps_last_aux [OF refl])

lemma highest_loop_parsed:
  "highest_loop lib mv subpath h tags = Some (t, sv) \<Longrightarrow>
     h = Some (t, sv) \<or> (t \<in> set tags \<and> get_semantic_version_from_tag lib t subpath = Inr sv)"
proof (induction tags arbitrary: h)
  case Nil
  then show ?case by simp
next
  case (Cons x tags)
  then show ?case
    by (fastforce split: sum.splits if_splits)
qed

lemma highest_tag_parsed:
  assumes "get_highest_semver_tag lib repo mv all_reachable subpath = Inr (Some t)"
  shows "startswith t (tag_prefix subpath)
       \<and> (\<exists>sv. get_semantic_version_from_tag lib t subpath = Inr sv)"
proof -
  from assms obtain tag_names sv where
    "highest_loop lib mv subpath None
       (filter (\<lambda>x. startswith x (tag_prefix subpath)) tag_names) = Some (t, sv)"
    by (auto simp: get_highest_semver_tag_def Let_def split: sum.splits)
  from highest_loop_parsed [OF this] show ?thesis by auto
qed

lemma pseudo_version_nonempty:
  "get_golang_pseudo_version lib commit tag mmv subpath = Inr v \<Longrightarrow> v \<noteq> []"
  by (auto simp: get_golang_pseudo_version_def Let_def split: sum.splits option.splits if_splits)

lemma tag_name_nonempty:
  assumes slash: "\<And>s v. version_parse lib s = Some v \<Longrightarrow> CHR ''/'' \<notin> set s"
    and pre: "startswith t (tag_prefix subpath)"
    and parsed: "get_semantic_version_from_tag lib t subpath = Inr sv"
  shows "(case subpath of
            None \<Rightarrow> t
          | Some sp \<Rightarrow> if sp = [] then t else str_replace t (sp @ ''/'') []) \<noteq> []"
proof (cases "truthy subpath")
  case False
  with pre have "startswith t ''v''"
    by (auto simp: tag_prefix_def truthy_def split: option.splits)
  then have "t \<noteq> []" by (auto simp: startswith_def)
  with False show ?thesis by (auto simp: truthy_def split: option.splits)
next
  case True
  then obtain sp where sp: "subpath = Some sp" "sp \<noteq> []"
    by (auto simp: truthy_def split: option.splits)
  with pre have "prefix (sp @ ''/v'') t" by (simp add: tag_prefix_def startswith_def)
  then have t: "t \<noteq> []" using sp(2) by (auto simp: prefix_def)
  have "str_replace t (sp @ ''/'') [] \<noteq> []"
  proof
    assume "str_replace t (sp @ ''/'') [] = []"
    with t have "last t = last (sp @ ''/'')"
      using str_replace_empty_last [of "sp @ ''/''" t] by simp
    then have l: "last t = CHR ''/''" by simp
    then have "last t \<noteq> last (sp @ ''/v'')" by simp
    with t have r: "str_replace t (sp @ ''/v'') [] \<noteq> []"
      "last (str_replace t (sp @ ''/v'') []) = last t"
      using str_replace_keeps_last [of "sp @ ''/v''" t] by simp_all
    then have "CHR ''/'' \<in> set (str_replace t (sp @ ''/v'') [])"
      using l by (metis last_in_set)
    moreover from parsed sp have "version_parse lib (str_replace t (sp @ ''/v'') []) = Some sv"
      by (auto simp: get_semantic_version_from_tag_def split: option.splits)
    ultimately show False using slash by blast
  qed
  with sp show ?thesis by simp
qed

lemma tag_on_commit_loop_nonempty:
  assumes slash: "\<And>s v. version_parse lib s = Some v \<Longrightarrow> CHR ''/'' \<notin> set s"
  shows "tag_on_commit_loop lib repo subpath mvs = Inr (Some v) \<Longrightarrow> v \<noteq> []"
proof (induction mvs)
  case Nil
  then show ?case by simp
next
  case (Cons mv mvs)
  show ?case
  proof (cases "get_highest_semver_tag lib repo mv False subpath")
    case (Inl e)
    with Cons.prems show ?thesis by simp
  next
    case (Inr found)
    show ?thesis
    proof (cases found)
      case None
      with Inr Cons show ?thesis by simp
    next
      case (Some t)
      with Inr have h: "get_highest_semver_tag lib repo mv False subpath = Inr (Some t)" by simp
      from highest_tag_parsed [OF h] obtain sv where
        "startswith t (tag_prefix subpath)"
        "get_semantic_version_from_tag lib t subpath = Inr sv" by blast
      from tag_name_nonempty [OF slash this] h Cons.prems show ?thesis by auto
    qed
  qed
qed

lemma pseudo_base_loop_nonempty:
  "pseudo_base_loop lib repo subpath mvs = Inr (Some v) \<Longrightarrow> v \<noteq> []"
proof (induction mvs)
  case Nil
  then show ?case by simp
next
  case (Cons mv mvs)
  then show ?case
    by (auto split: sum.splits option.splits dest: pseudo_version_nonempty)
qed

lemma get_golang_version_nonempty:
  assumes slash: "\<And>s v. version_parse lib s = Some v \<Longrightarrow> CHR ''/'' \<notin> set s"
    and "get_golang_version lib repo module_name app_dir update_tags = Inr v"
  shows "v \<noteq> []"
  using assms(2) tag_on_commit_loop_nonempty [OF slash] pseudo_base_loop_nonempty
    pseudo_version_nonempty
  unfolding get_golang_version_def Let_def
  by (fastforce split: sum.splits option.splits)

lemma create_module_version:
  assumes slash: "\<And>s v. version_parse lib s = Some v \<Longrightarrow> CHR ''/'' \<notin> set s"
    and "create_module lib repo main_module main_module_dir m = Inr created"
  shows "(module_version created = []) = (replace m = None \<and> \<not> truthy (version m))"
proof (cases "replace m")
  case None
  with assms(2) show ?thesis
    by (auto simp: create_module_def truthy_def split: option.splits)
next
  case (Some r)
  show ?thesis
  proof (cases "truthy (version r)")
    case True
    with Some assms(2) show ?thesis
      by (auto simp: create_module_def truthy_def split: option.splits)
  next
    case False
    with Some assms(2) obtain resolved v where
      "get_golang_version lib repo (path m) resolved False = Inr v" "module_version created = v"
      by (auto simp: create_module_def split: option.splits sum.splits)
    with get_golang_version_nonempty [OF slash] Some show ?thesis by auto
  qed
qed

lemma map_result_nth:
  "map_result f xs = Inr ys \<Longrightarrow>
     length ys = length xs \<and> (\<forall>i < length xs. f (xs ! i) = Inr (ys ! i))"
proof (induction xs arbitrary: ys)
  case Nil
  then show ?case by simp
next
  case (Cons x xs)
  then obtain y ys' where y: "f x = Inr y" "map_result f xs = Inr ys'" "ys = y # ys'"
    by (auto split: sum.splits)
  from Cons.IH [OF y(2)] y show ?case
    by (auto simp: nth_Cons split: nat.splits)
qed

lemma create_module_version_source:
  assumes slash: "\<And>s v. version_parse lib s = Some v \<Longrightarrow> CHR ''/'' \<notin> set s"
    and "create_module lib repo main_module main_module_dir m = Inr created"
  shows "case replace m of
           None \<Rightarrow> module_version created = (case version m of None \<Rightarrow> [] | Some v \<Rightarrow> v)
         | Some r \<Rightarrow>
             module_version created \<noteq> []
             \<and> (if truthy (version r) then version r = Some (module_version created)
                else \<exists>resolved. join_within_root main_module_dir (path r) = Some resolved
                       \<and> get_golang_version lib repo (path m) resolved False
                           = Inr (module_version created))"
proof (cases "replace m")
  case None
  with assms(2) show ?thesis by (auto simp: create_module_def)
next
  case (Some r)
  show ?thesis
  proof (cases "truthy (version r)")
    case True
    with Some assms(2) show ?thesis
      by (auto simp: create_module_def truthy_def split: option.splits)
  next
    case False
    with Some assms(2) obtain resolved v where
      "join_within_root main_module_dir (path r) = Some resolved"
      "get_golang_version lib repo (path m) resolved False = Inr v" "module_version created = v"
      by (auto simp: create_module_def split: option.splits sum.splits)
    with get_golang_version_nonempty [OF slash] Some False show ?thesis by auto
  qed
qed

text \<open>
  C1, as the code has it. When the parser of versions accepts no string that holds a
  slash and module creation returns, it returns one module for each parsed module. A
  module without a replace directive takes the version of the parsed module, or the
  empty string when there is none; a module replaced by a version takes the version of
  the replacement; a module replaced by a local path takes the version that the reifier
  returns for the directory of the replacement; and the last two are not empty. So the
  version of a module is the empty string exactly when the parsed module has no replace
  directive and no version (or an empty one).
\<close>

theorem create_modules_version_spec:
  assumes "\<forall>s v. version_parse lib s = Some v \<longrightarrow> CHR ''/'' \<notin> set s"
    and "create_modules_from_parsed_data lib repo main_module main_module_dir parsed_modules
           = Inr modules"
  shows "length modules = length parsed_modules
       \<and> (\<forall>i < length parsed_modules.
            (case replace (parsed_modules ! i) of
               None \<Rightarrow>
                 module_version (modules ! i)
                   = (case version (parsed_modules ! i) of None \<Rightarrow> [] | Some v \<Rightarrow> v)
             | Some r \<Rightarrow>
                 module_version (modules ! i) \<noteq> []
                 \<and> (if truthy (version r) then version r = Some (module_version (modules ! i))
                    else \<exists>resolved.
                           join_within_root main_module_dir (path r) = Some resolved
                           \<and> get_golang_version lib repo (path (parsed_modules ! i)) resolved
                                 False
                               = Inr (module_version (modules ! i))))
            \<and> ((module_version (modules ! i) = [])
                 = (replace (parsed_modules ! i) = None
                    \<and> \<not> truthy (version (parsed_modules ! i)))))"
proof -
  from map_result_nth [OF assms(2) [unfolded create_modules_from_parsed_data_def]]
  have len: "length modules = length parsed_modules"
    and each: "\<And>i. i < length parsed_modules \<Longrightarrow>
      create_module lib repo main_module main_module_dir (parsed_modules ! i) = Inr (modules ! i)"
    by auto
  have slash: "\<And>s v. version_parse lib s = Some v \<Longrightarrow> CHR ''/'' \<notin> set s"
    using assms(1) by blast
  have "(case replace (parsed_modules ! i) of
               None \<Rightarrow>
                 module_version (modules ! i)
                   = (case version (parsed_modules ! i) of None \<Rightarrow> [] | Some v \<Rightarrow> v)
             | Some r \<Rightarrow>
                 module_version (modules ! i) \<noteq> []
                 \<and> (if truthy (version r) then version r = Some (module_version (modules ! i))
                    else \<exists>resolved.
                           join_within_root main_module_dir (path r) = Some resolved
                           \<and> get_golang_version lib repo (path (parsed_modules ! i)) resolved
                                 False
                               = Inr (module_version (modules ! i))))
            \<and> ((module_version (modules ! i) = [])
                 = (replace (parsed_modules ! i) = None
                    \<and> \<not> truthy (version (parsed_modules ! i))))"
    if "i < length parsed_modules" for i
  proof (rule conjI)
    show "case replace (parsed_modules ! i) of
               None \<Rightarrow>
                 module_version (modules ! i)
                   = (case version (parsed_modules ! i) of None \<Rightarrow> [] | Some v \<Rightarrow> v)
             | Some r \<Rightarrow>
                 module_version (modules ! i) \<noteq> []
                 \<and> (if truthy (version r) then version r = Some (module_version (modules ! i))
                    else \<exists>resolved.
                           join_within_root main_module_dir (path r) = Some resolved
                           \<and> get_golang_version lib repo (path (parsed_modules ! i)) resolved
                                 False
                               = Inr (module_version (modules ! i)))"
      by (rule create_module_version_source [OF slash each [OF that]])
    show "(module_version (modules ! i) = [])
                 = (replace (parsed_modules ! i) = None
                    \<and> \<not> truthy (version (parsed_modules ! i)))"
      by (rule create_module_version [OF slash each [OF that]])
  qed
  with len show ?thesis by blast
qed

lemma example_semver_rejects_slash:
  "version_parse example_semver s = Some v \<Longrightarrow> CHR ''/'' \<notin> set s"
  by (auto simp: example_semver_def example_parse_def split: if_splits)

lemma create_replaced_b:
  "create_module lib repo main_module main_module_dir replaced_b = Inr example_module_c"
  by (simp add: create_module_def replaced_b_def truthy_def example_module_c_def)

lemma create_downloaded_d:
  "create_module lib repo main_module main_module_dir downloaded_d
     = Inr \<lparr>name = ''example.com/d'', original_name = ''example.com/d'',
            real_path = ''example.com/d'', module_version = ''v0.1.0'', module_main = False\<rparr>"
  by (simp add: create_module_def downloaded_d_def)

lemma create_unversioned_e:
  "create_module lib repo main_module main_module_dir unversioned_e
     = Inr \<lparr>name = ''example.com/e'', original_name = ''example.com/e'',
            real_path = ''example.com/e'', module_version = [], module_main = False\<rparr>"
  by (simp add: create_module_def unversioned_e_def)

lemma example_tag_parse:
  "get_semantic_version_from_tag example_semver ''b/v1.2.3'' (Some ''b'')
     = Inr \<lparr>major = 1, minor = 2, patch = 3, prerelease = None, build = None\<rparr>"
  by (simp add: get_semantic_version_from_tag_def example_semver_def example_parse_def)

lemma example_highest:
  "get_highest_semver_tag example_semver example_repo (Suc 0) False (Some ''b'')
     = Inr (Some ''b/v1.2.3'')"
  by (simp add: get_highest_semver_tag_def example_repo_def tag_prefix_def startswith_def
      example_tag_parse)

lemma example_local_version:
  "get_golang_version example_semver example_repo ''example.com/b'' (leaf ''b'' Dir) False
     = Inr ''v1.2.3''"
proof -
  have m: "match_major_version ''example.com/b'' = None"
    by (simp add: match_major_version_def is_digit_def)
  show ?thesis
    by (simp add: get_golang_version_def m major_versions_to_try_def leaf_def example_highest
        Let_def)
qed

lemma example_local_real_path:
  "resolve_path_for_local_replacement example_main_module (local_b ''./b'')
     = Inr ''example.com/a/b''"
  by (simp add: resolve_path_for_local_replacement_def local_b_def example_main_module_def
      normpath_def split_sep_def join_sep_def startswith_def path_parts_def path_root_def
      path_str_def)

lemma create_local_b:
  "create_module example_semver example_repo example_main_module (example_app_dir Dir Absent)
     (local_b ''./b'')
   = Inr \<lparr>name = ''example.com/b'', original_name = ''example.com/b'',
          real_path = ''example.com/a/b'', module_version = ''v1.2.3'', module_main = False\<rparr>"
proof -
  have j: "join_within_root (example_app_dir Dir Absent) ''./b'' = Some (leaf ''b'' Dir)"
    by (simp add: example_app_dir_def)
  have r: "replace (local_b ''./b'') = Some (ParsedModule ''./b'' None False None)"
    "path (local_b ''./b'') = ''example.com/b''"
    by (simp_all add: local_b_def)
  show ?thesis
    unfolding create_module_def r
    by (simp add: truthy_def j r example_local_version example_local_real_path)
qed

lemma example_created:
  "create_modules_from_parsed_data example_semver example_repo example_main_module
     (example_app_dir Dir Absent) example_parsed_modules = Inr example_modules"
  by (simp add: create_modules_from_parsed_data_def example_parsed_modules_def
      example_modules_def create_replaced_b create_downloaded_d create_local_b
      create_unversioned_e)

theorem create_modules_version_spec_witness:
  "create_modules_from_parsed_data example_semver example_repo example_main_module
     (example_app_dir Dir Absent) example_parsed_modules = Inr example_modules
   \<and> length example_modules = length example_parsed_modules
   \<and> module_version (example_modules ! 0) = ''v1.1.0''
   \<and> module_version (example_modules ! 1) = ''v0.1.0''
   \<and> module_version (example_modules ! 2) = ''v1.2.3''
   \<and> module_version (example_modules ! 3) = []
   \<and> map (\<lambda>m. replace m = None \<and> \<not> truthy (version m)) example_parsed_modules
       = [False, False, False, True]"
proof -
  have s: "\<forall>s v. version_parse example_semver s = Some v \<longrightarrow> CHR ''/'' \<notin> set s"
    using example_semver_rejects_slash by blast
  note t = create_modules_version_spec [OF s example_created]
  have len: "length example_modules = length example_parsed_modules"
    using t by blast
  have l: "length example_parsed_modules = 4"
    by (simp add: example_parsed_modules_def)
  have p: "example_parsed_modules ! 0 = replaced_b" "example_parsed_modules ! 1 = downloaded_d"
    "example_parsed_modules ! 2 = local_b ''./b''" "example_parsed_modules ! 3 = unversioned_e"
    by (simp_all add: example_parsed_modules_def)
  note c = t [THEN conjunct2, rule_format, THEN conjunct1]
  have j: "join_within_root (example_app_dir Dir Absent) ''./b'' = Some resolved
      \<longleftrightarrow> resolved = leaf ''b'' Dir" for resolved
    by (auto simp: example_app_dir_def)
  have v0: "module_version (example_modules ! 0) = ''v1.1.0''"
    using c [of 0] unfolding p by (simp add: l replaced_b_def truthy_def)
  have v1: "module_version (example_modules ! 1) = ''v0.1.0''"
    using c [of 1] unfolding p by (simp add: l downloaded_d_def)
  have v2: "module_version (example_modules ! 2) = ''v1.2.3''"
    using c [of 2] unfolding p by (simp add: l local_b_def truthy_def j example_local_version)
  have v3: "module_version (example_modules ! 3) = []"
    using c [of 3] unfolding p by (simp add: l unversioned_e_def truthy_def)
  have r: "map (\<lambda>m. replace m = None \<and> \<not> truthy (version m)) example_parsed_modules
       = [False, False, False, True]"
    by (simp add: example_parsed_modules_def replaced_b_def downloaded_d_def local_b_def
        unversioned_e_def truthy_def)
  show ?thesis by (intro conjI example_created len v0 v1 v2 v3 r)
qed

text \<open>
  A parsed module with no replace directive and no version yields a module whose version
  is the empty string.
\<close>

theorem create_modules_empty_version_counterexample:
  "create_modules_from_parsed_data example_semver example_repo example_main_module
     (example_app_dir Dir Absent) [unversioned_e]
     = Inr [\<lparr>name = ''example.com/e'', original_name = ''example.com/e'',
             real_path = ''example.com/e'', module_version = [], module_main = False\<rparr>]
   \<and> module_version \<lparr>name = ''example.com/e'', original_name = ''example.com/e'',
             real_path = ''example.com/e'', module_version = [], module_main = False\<rparr> = []"
  by (simp add: create_modules_from_parsed_data_def create_unversioned_e)

lemma example_indexed:
  "indexed_modules [example_main_module, example_module_c]
     = [(''example.com/a'', example_main_module), (''example.com/b'', example_module_c)]"
  by (simp add: indexed_modules_def dict_set_def example_main_module_def example_module_c_def)

lemma example_parts:
  "path_parts ''example.com/b'' = [''example.com'', ''b'']"
  "path_parts ''example.com/b/sub'' = [''example.com'', ''b'', ''sub'']"
  "path_parts ''example.com/b/.sub'' = [''example.com'', ''b'', ''.sub'']"
  by (simp_all add: path_parts_def path_root_def startswith_def split_sep_def)

lemma example_relative:
  "resolve_package_relative_path (example_package ''example.com/b/sub'') example_module_c
     = Inr ''sub''"
  "resolve_package_relative_path (example_package ''example.com/b/.sub'') example_module_c
     = Inr ''sub''"
  by (simp_all add: resolve_package_relative_path_def example_package_def example_module_c_def
      example_parts relative_to_def path_str_def join_sep_def removeprefix_def startswith_def)

text \<open>
  C5 at the inputs of the scenario and at a package in a directory whose name begins
  with a dot. The version replacement of \<^verbatim>\<open>example.com/b\<close> by
  \<^verbatim>\<open>example.com/c v1.1.0\<close> yields the record of the claim, and the package
  \<^verbatim>\<open>example.com/b/sub\<close> attaches to it with the relative path \<open>sub\<close>. The package
  \<^verbatim>\<open>example.com/b/.sub\<close> lies \<open>.sub\<close> below the module, and gets the relative path
  \<open>sub\<close> as well: \<^verbatim>\<open>removeprefix(".")\<close> takes the dot of the directory name.
\<close>

theorem package_relative_path_drops_dot:
  "create_module example_semver example_repo example_main_module (example_app_dir Dir Absent)
     replaced_b = Inr example_module_c
   \<and> create_packages_from_parsed_data [example_main_module, example_module_c]
        [example_package ''example.com/b/sub''] = Inr [Package ''sub'' example_module_c]
   \<and> package_real_path (Package ''sub'' example_module_c) = ''example.com/c/sub''
   \<and> relative_to (path_parts ''example.com/b/.sub'') (path_parts ''example.com/b'')
        = Inr [''.sub'']
   \<and> create_packages_from_parsed_data [example_main_module, example_module_c]
        [example_package ''example.com/b/.sub''] = Inr [Package ''sub'' example_module_c]"
proof -
  have p: "create_package [(''example.com/a'', example_main_module),
              (''example.com/b'', example_module_c)] (example_package q)
           = (case resolve_package_relative_path (example_package q) example_module_c of
                Inl e \<Rightarrow> Inl e | Inr rel \<Rightarrow> Inr (Package rel example_module_c))" for q
    by (simp add: create_package_def example_package_def replaced_b_def)
  have a: "create_packages_from_parsed_data [example_main_module, example_module_c]
        [example_package ''example.com/b/sub''] = Inr [Package ''sub'' example_module_c]"
    by (simp add: create_packages_from_parsed_data_def example_indexed p example_relative)
  have b: "create_packages_from_parsed_data [example_main_module, example_module_c]
        [example_package ''example.com/b/.sub''] = Inr [Package ''sub'' example_module_c]"
    by (simp add: create_packages_from_parsed_data_def example_indexed p example_relative)
  have c: "package_real_path (Package ''sub'' example_module_c) = ''example.com/c/sub''"
    by (simp add: package_real_path_def example_module_c_def)
  have d: "relative_to (path_parts ''example.com/b/.sub'') (path_parts ''example.com/b'')
        = Inr [''.sub'']"
    by (simp add: example_parts relative_to_def)
  show ?thesis using create_replaced_b a b c d by blast
qed

subsection \<open>The vendoring arbiter\<close>

text \<open>
  C6, as the code has it. When \<^verbatim>\<open>vendor\<close> joins within the root: the flag
  \<^verbatim>\<open>gomod-vendor-check\<close> is looked at first and gives \<open>(True, vendor path does not exist)\<close>;
  without it the flag \<^verbatim>\<open>gomod-vendor\<close> gives \<open>(True, True)\<close>; with neither flag, strict
  mode and a vendor directory raise \<^verbatim>\<open>PackageRejected\<close>, whose reason names both flags;
  in every other case the result is \<open>(False, False)\<close>.
\<close>

theorem should_vendor_deps_table:
  assumes "join_within_root app_dir ''vendor'' = Some vendor"
  shows "(''gomod-vendor-check'' \<in> set flags \<longrightarrow>
            should_vendor_deps flags app_dir strict = Inr (True, node vendor = Absent))
       \<and> (''gomod-vendor-check'' \<notin> set flags \<and> ''gomod-vendor'' \<in> set flags \<longrightarrow>
            should_vendor_deps flags app_dir strict = Inr (True, True))
       \<and> (''gomod-vendor-check'' \<notin> set flags \<and> ''gomod-vendor'' \<notin> set flags
            \<and> strict \<and> node vendor = Dir \<longrightarrow>
            should_vendor_deps flags app_dir strict
              = Inl (PackageRejected vendor_flag_reason vendor_flag_solution)
            \<and> sublist ''gomod-vendor-check'' vendor_flag_reason)
       \<and> (''gomod-vendor-check'' \<notin> set flags \<and> ''gomod-vendor'' \<notin> set flags
            \<and> \<not> (strict \<and> node vendor = Dir) \<longrightarrow>
            should_vendor_deps flags app_dir strict = Inr (False, False))"
proof -
  have named: "sublist ''gomod-vendor-check'' vendor_flag_reason"
    unfolding sublist_def vendor_flag_reason_def
    by (rule exI [of _ \<open>''The "gomod-vendor" or "''\<close>]) simp
  show ?thesis
    using assms named by (simp add: should_vendor_deps_def path_exists_def is_dir_def)
qed

theorem should_vendor_deps_table_witness:
  "should_vendor_deps [''gomod-vendor-check''] (example_app_dir Dir Absent) True = Inr (True, False)
   \<and> should_vendor_deps [''gomod-vendor-check''] (example_app_dir Absent Absent) True = Inr (True, True)
   \<and> should_vendor_deps [''gomod-vendor''] (example_app_dir Dir Absent) True = Inr (True, True)
   \<and> should_vendor_deps [] (example_app_dir Dir Absent) True
        = Inl (PackageRejected vendor_flag_reason vendor_flag_solution)
   \<and> should_vendor_deps [] (example_app_dir Dir Absent) False = Inr (False, False)
   \<and> should_vendor_deps [] (example_app_dir (File []) Absent) True = Inr (False, False)"
proof -
  have j: "join_within_root (example_app_dir n Absent) ''vendor'' = Some (leaf ''vendor'' n)" for n
    by (simp add: example_app_dir_def)
  show ?thesis
    using should_vendor_deps_table [OF j [of Dir], of "[''gomod-vendor-check'']" True]
      should_vendor_deps_table [OF j [of Absent], of "[''gomod-vendor-check'']" True]
      should_vendor_deps_table [OF j [of Dir], of "[''gomod-vendor'']" True]
      should_vendor_deps_table [OF j [of Dir], of "[]" True]
      should_vendor_deps_table [OF j [of Dir], of "[]" False]
      should_vendor_deps_table [OF j [of "File []"], of "[]" True]
    by (simp add: leaf_def)
qed

text \<open>
  The table of the claim read row by row fails when both flags are present: the flag
  \<^verbatim>\<open>gomod-vendor\<close> is present, a vendor directory exists, and the result is
  \<open>(True, False)\<close>, not \<open>(True, True)\<close>.
\<close>

theorem should_vendor_deps_both_flags_counterexample:
  "''gomod-vendor'' \<in> set [''gomod-vendor'', ''gomod-vendor-check'']
   \<and> should_vendor_deps [''gomod-vendor'', ''gomod-vendor-check''] (example_app_dir Dir Absent) False
       = Inr (True, False)
   \<and> should_vendor_deps [''gomod-vendor'', ''gomod-vendor-check''] (example_app_dir Dir Absent) False
       \<noteq> Inr (True, True)"
  by (simp add: should_vendor_deps_def example_app_dir_def leaf_def path_exists_def)

end
